theory Spec2Isabelle
  imports Complex_Main "HOL-Library.AList" "HOL-Library.Product_Lexorder"
    "HOL-Library.List_Lexorder"
begin

section \<open>Values and documents\<close>

text \<open>
  The task queue keeps queues, tasks and workers as documents of a document store; in the
  Python source every document, filter and update is a \<^verbatim>\<open>dict\<close>. A dict is
  modelled as an association list in insertion order whose keys are unique; the values are
  the JSON-like values below. Time stamps (\<^verbatim>\<open>get_current_time()\<close>) are instants
  in milliseconds, the two status enumerations of \<^verbatim>\<open>fsm.py\<close> are datatypes.
  Documents of this model hold no arrays.
\<close>

datatype TaskState = PENDING | RUNNING | SUCCESS | FAILED | CANCELLED

datatype WorkerState = ACTIVE | SUSPENDED | CRASHED

datatype val =
    VNone
  | VBool bool
  | VInt int
  | VFloat rat
  | VStr string
  | VTime int
  | VTaskState TaskState
  | VWorkerState WorkerState
  | VDict "(string \<times> val) list"

type_synonym dict = "(string \<times> val) list"

text \<open>
  Errors are values: an \<^verbatim>\<open>HTTPException\<close> with its status code (404 not
  found, 400 bad request), Python's \<^verbatim>\<open>KeyError\<close> for \<^verbatim>\<open>d[k]\<close> on a
  missing key, \<^verbatim>\<open>AttributeError\<close> and \<^verbatim>\<open>TypeError\<close>, the state machine's
  refusal of an event, and the errors of the store (a failed write, a duplicate key of a
  unique index, a failed query expression).
\<close>

datatype error =
    HTTPException nat
  | KeyError
  | AttributeError
  | TypeError
  | InvalidTransition
  | WriteError
  | DuplicateKeyError
  | OperationFailure

definition subscript :: "(string \<times> 'v) list \<Rightarrow> string \<Rightarrow> error + 'v" where
  "subscript d k = (case map_of d k of None \<Rightarrow> Inl KeyError | Some v \<Rightarrow> Inr v)"

text \<open>\<^verbatim>\<open>{**a, **b}\<close> and \<^verbatim>\<open>a.update(b)\<close>: a key of \<open>b\<close> already in
  \<open>a\<close> keeps its place and takes the value of \<open>b\<close>, a new key is appended.\<close>

definition dict_update :: "(string \<times> 'v) list \<Rightarrow> (string \<times> 'v) list \<Rightarrow> (string \<times> 'v) list" where
  "dict_update a b = fold (\<lambda>(k, v) d. AList.update k v d) b a"

section \<open>Matching required against provided arguments\<close>

text \<open>
  \<^verbatim>\<open>arg_match\<close> of \<^verbatim>\<open>server/db_utils.py\<close>. A value other than a dict has no
  \<^verbatim>\<open>keys()\<close>: the \<^verbatim>\<open>AttributeError\<close> is caught and the result is
  \<^verbatim>\<open>False\<close>. The loop over \<^verbatim>\<open>required.items()\<close> is
  \<open>arg_match_items\<close>; \<^verbatim>\<open>provided[key]\<close> is a subscript and is written as one.
\<close>

fun arg_match :: "val \<Rightarrow> val \<Rightarrow> error + bool"
  and arg_match_items :: "dict \<Rightarrow> dict \<Rightarrow> error + bool" where
  "arg_match VNone provided = Inr True"
| "arg_match (VDict required) VNone = Inr False"
| "arg_match (VDict required) (VDict provided) =
     (if set (map fst required) \<noteq> set (map fst provided) then Inr False
      else arg_match_items required provided)"
| "arg_match (VDict required) _ = Inr False"
| "arg_match _ _ = Inr False"
| "arg_match_items [] provided = Inr True"
| "arg_match_items ((key, v) # rest) provided =
     (case subscript provided key of
        Inl e \<Rightarrow> Inl e
      | Inr pv \<Rightarrow>
          (case arg_match v pv of
             Inl e \<Rightarrow> Inl e
           | Inr ok \<Rightarrow> if \<not> ok then Inr False else arg_match_items rest provided))"

text \<open>The arguments of scenario 6: \<^verbatim>\<open>args = {model: {name: "x", lr: 0.1}}\<close>.\<close>

definition args_model :: val where
  "args_model = VDict [(''name'', VStr ''x''), (''lr'', VFloat (1 / 10))]"

definition scenario_args :: val where
  "scenario_args = VDict [(''model'', args_model)]"

section \<open>The document store\<close>

text \<open>
  The store is the external collaborator of the service (pymongo in the source). What the
  service needs of it is modelled here: three collections in their natural order, filters,
  the \<^verbatim>\<open>$set\<close> update and the sort of \<^verbatim>\<open>find_one_and_update\<close>.

  A filter is a dict from field paths to conditions: \<open>Eq v\<close> is \<^verbatim>\<open>{k: v}\<close>,
  \<open>Ne v\<close> is \<^verbatim>\<open>{k: {"$ne": v}}\<close>, \<open>Exists b\<close> is \<^verbatim>\<open>{k: {"$exists": b}}\<close>;
  \<open>AllOf\<close> and \<open>AnyOf\<close> are the values of the keys \<^verbatim>\<open>$and\<close> and \<^verbatim>\<open>$or\<close>.
  The entries of a filter are a conjunction. A field that is missing matches
  \<^verbatim>\<open>null\<close>, as in the store.
\<close>

datatype fcond =
    Eq val
  | Ne val
  | Exists bool
  | AllOf "(string \<times> fcond) list list"
  | AnyOf "(string \<times> fcond) list list"

type_synonym mfilter = "(string \<times> fcond) list"

text \<open>A dotted key \<^verbatim>\<open>a.b.c\<close> is a path into embedded documents.\<close>

fun split_path :: "string \<Rightarrow> string list" where
  "split_path [] = [[]]"
| "split_path (c # cs) =
     (if c = CHR ''.'' then [] # split_path cs
      else (case split_path cs of [] \<Rightarrow> [[c]] | p # ps \<Rightarrow> (c # p) # ps))"

fun get_path :: "dict \<Rightarrow> string list \<Rightarrow> val option" where
  "get_path d [] = None"
| "get_path d [k] = map_of d k"
| "get_path d (k # ks) =
     (case map_of d k of Some (VDict sub) \<Rightarrow> get_path sub ks | _ \<Rightarrow> None)"

definition field :: "dict \<Rightarrow> string \<Rightarrow> val option" where
  "field d k = get_path d (split_path k)"

definition field_eq :: "val option \<Rightarrow> val \<Rightarrow> bool" where
  "field_eq fv v = (case fv of None \<Rightarrow> v = VNone | Some x \<Rightarrow> x = v)"

fun holds :: "string \<Rightarrow> fcond \<Rightarrow> dict \<Rightarrow> bool" where
  "holds k (Eq v) d = field_eq (field d k) v"
| "holds k (Ne v) d = (\<not> field_eq (field d k) v)"
| "holds k (Exists b) d = ((field d k \<noteq> None) = b)"
| "holds k (AllOf fs) d = list_all (list_all (\<lambda>(k', c). holds k' c d)) fs"
| "holds k (AnyOf fs) d = list_ex (list_all (\<lambda>(k', c). holds k' c d)) fs"

definition matches :: "mfilter \<Rightarrow> dict \<Rightarrow> bool" where
  "matches f d = list_all (\<lambda>(k, c). holds k c d) f"

text \<open>
  \<^verbatim>\<open>$set\<close> writes each path of the update in turn. Writing below a field that holds
  something other than an embedded document is a write error, and so is a new value for the
  immutable \<^verbatim>\<open>_id\<close>; \<open>None\<close> stands for that error.
\<close>

fun set_path :: "string list \<Rightarrow> val \<Rightarrow> dict \<Rightarrow> dict option" where
  "set_path [] v d = None"
| "set_path [k] v d = Some (AList.update k v d)"
| "set_path (k # ks) v d =
     (case map_of d k of
        None \<Rightarrow> map_option (\<lambda>sub. AList.update k (VDict sub) d) (set_path ks v [])
      | Some (VDict sub) \<Rightarrow> map_option (\<lambda>sub. AList.update k (VDict sub) d) (set_path ks v sub)
      | Some _ \<Rightarrow> None)"

definition set_field :: "dict \<Rightarrow> string \<Rightarrow> val \<Rightarrow> dict option" where
  "set_field d k v =
     (if k = ''_id'' \<and> map_of d ''_id'' \<noteq> Some v then None
      else set_path (split_path k) v d)"

fun apply_set :: "dict \<Rightarrow> dict \<Rightarrow> dict option" where
  "apply_set [] d = Some d"
| "apply_set ((k, v) # u) d =
     (case set_field d k v of None \<Rightarrow> None | Some d' \<Rightarrow> apply_set u d')"

text \<open>The operations on one collection. A count is the store's \<^verbatim>\<open>deleted_count\<close> or
  \<^verbatim>\<open>modified_count\<close>: a document that the update leaves as it was is not counted.
  A write error stops \<^verbatim>\<open>update_many\<close> and keeps the writes made before it.\<close>

definition find_one :: "mfilter \<Rightarrow> dict list \<Rightarrow> dict option" where
  "find_one f c = List.find (matches f) c"

definition find_many :: "mfilter \<Rightarrow> dict list \<Rightarrow> dict list" where
  "find_many f c = filter (matches f) c"

fun delete_one :: "mfilter \<Rightarrow> dict list \<Rightarrow> nat \<times> dict list" where
  "delete_one f [] = (0, [])"
| "delete_one f (d # ds) =
     (if matches f d then (1, ds)
      else (case delete_one f ds of (n, ds') \<Rightarrow> (n, d # ds')))"

fun update_one :: "mfilter \<Rightarrow> dict \<Rightarrow> dict list \<Rightarrow> (error + nat) \<times> dict list" where
  "update_one f u [] = (Inr 0, [])"
| "update_one f u (d # ds) =
     (if matches f d then
        (case apply_set u d of
           None \<Rightarrow> (Inl WriteError, d # ds)
         | Some d' \<Rightarrow> (Inr (if d' = d then 0 else 1), d' # ds))
      else (case update_one f u ds of (r, ds') \<Rightarrow> (r, d # ds')))"

fun update_many :: "mfilter \<Rightarrow> dict \<Rightarrow> dict list \<Rightarrow> (error + nat) \<times> dict list" where
  "update_many f u [] = (Inr 0, [])"
| "update_many f u (d # ds) =
     (if matches f d then
        (case apply_set u d of
           None \<Rightarrow> (Inl WriteError, d # ds)
         | Some d' \<Rightarrow>
             (case update_many f u ds of
                (r, ds') \<Rightarrow> (map_sum id (\<lambda>n. n + (if d' = d then 0 else 1)) r, d' # ds')))
      else (case update_many f u ds of (r, ds') \<Rightarrow> (r, d # ds')))"

text \<open>
  The sort of \<^verbatim>\<open>find_one_and_update\<close>: a list of fields, each with its direction
  (\<open>1\<close> ascending, \<open>-1\<close> descending). Values compare by their type bracket first
  (null and missing, then numbers, strings, documents, booleans, dates) and inside the
  brackets of numbers, booleans and dates by value; the sort is stable, so documents that
  compare equal stay in natural order.
\<close>

fun bson_key :: "val option \<Rightarrow> int \<times> rat" where
  "bson_key None = (1, 0)"
| "bson_key (Some VNone) = (1, 0)"
| "bson_key (Some (VInt n)) = (2, of_int n)"
| "bson_key (Some (VFloat r)) = (2, r)"
| "bson_key (Some (VStr s)) = (3, 0)"
| "bson_key (Some (VTaskState st)) = (3, 0)"
| "bson_key (Some (VWorkerState st)) = (3, 0)"
| "bson_key (Some (VDict sub)) = (4, 0)"
| "bson_key (Some (VBool b)) = (8, if b then 1 else 0)"
| "bson_key (Some (VTime t)) = (9, of_int t)"

definition sort_keys :: "(string \<times> int) list \<Rightarrow> dict \<Rightarrow> (int \<times> rat) list" where
  "sort_keys srt d =
     map (\<lambda>(k, dir). (case bson_key (field d k) of (b, x) \<Rightarrow> (dir * b, of_int dir * x))) srt"

fun replace_first :: "'a \<Rightarrow> 'a \<Rightarrow> 'a list \<Rightarrow> 'a list" where
  "replace_first x y [] = []"
| "replace_first x y (z # zs) = (if z = x then y # zs else z # replace_first x y zs)"

definition find_one_and_update ::
  "mfilter \<Rightarrow> dict \<Rightarrow> (string \<times> int) list \<Rightarrow> dict list \<Rightarrow> (error + dict option) \<times> dict list" where
  "find_one_and_update f u srt c =
     (case sort_key (sort_keys srt) (filter (matches f) c) of
        [] \<Rightarrow> (Inr None, c)
      | d # _ \<Rightarrow>
          (case apply_set u d of
             None \<Rightarrow> (Inl WriteError, c)
           | Some d' \<Rightarrow> (Inr (Some d'), replace_first d d' c)))"

record store =
  queues :: "dict list"
  tasks :: "dict list"
  workers :: "dict list"

section \<open>Sanitizers and helpers of the service\<close>

text \<open>\<^verbatim>\<open>sanitize_query\<close> and \<^verbatim>\<open>sanitize_update\<close> of
  \<^verbatim>\<open>server/db_utils.py\<close>; \<open>recr_sanitize\<close> is the inner
  \<^verbatim>\<open>_recr_sanitize\<close>, which walks the items of the dict in order, raises on the first
  banned key and descends into every value that is a dict.\<close>

definition sanitize_query :: "string \<Rightarrow> mfilter \<Rightarrow> mfilter" where
  "sanitize_query queue_id query =
     [(''$and'', AllOf [[(''queue_id'', Eq (VStr queue_id))], query])]"

fun recr_sanitize :: "string list \<Rightarrow> dict \<Rightarrow> error + dict" where
  "recr_sanitize banned_fields [] = Inr []"
| "recr_sanitize banned_fields ((k, VDict sub) # d) =
     (if k \<in> set banned_fields then Inl (HTTPException 400)
      else (case recr_sanitize banned_fields sub of
              Inl e \<Rightarrow> Inl e
            | Inr sub' \<Rightarrow>
                (case recr_sanitize banned_fields d of
                   Inl e \<Rightarrow> Inl e
                 | Inr d' \<Rightarrow> Inr ((k, VDict sub') # d'))))"
| "recr_sanitize banned_fields ((k, v) # d) =
     (if k \<in> set banned_fields then Inl (HTTPException 400)
      else (case recr_sanitize banned_fields d of
              Inl e \<Rightarrow> Inl e
            | Inr d' \<Rightarrow> Inr ((k, v) # d')))"

definition sanitize_update :: "dict \<Rightarrow> string list option \<Rightarrow> error + dict" where
  "sanitize_update update banned_fields =
     recr_sanitize
       (case banned_fields of
          None \<Rightarrow> [''_id'', ''queue_id'', ''created_at'', ''last_modified'']
        | Some b \<Rightarrow> b)
       update"

text \<open>
  Modelled from the spec: \<^verbatim>\<open>flatten_dict\<close> of \<^verbatim>\<open>utils.py\<close>, which is not
  among the sources. The spec has it flatten a nested mapping "into dotted-key field
  updates", "so that individual keys are patched rather than the whole sub-object replaced";
  \<^verbatim>\<open>parent_key\<close> is the prefix of every key (\<^verbatim>\<open>summary\<close> in
  \<^verbatim>\<open>update_task_status\<close>, empty otherwise).
\<close>

fun flatten_dict :: "dict \<Rightarrow> string \<Rightarrow> dict" where
  "flatten_dict [] parent_key = []"
| "flatten_dict ((k, VDict sub) # d) parent_key =
     dict_update (flatten_dict sub (if parent_key = [] then k else parent_key @ ''.'' @ k))
       (flatten_dict d parent_key)"
| "flatten_dict ((k, v) # d) parent_key =
     dict_update [(if parent_key = [] then k else parent_key @ ''.'' @ k, v)]
       (flatten_dict d parent_key)"

text \<open>
  Modelled from the spec: the \<^verbatim>\<open>fail\<close> event of \<^verbatim>\<open>TaskFSM\<close>
  (\<^verbatim>\<open>fsm.py\<close> is not among the sources), built from
  \<^verbatim>\<open>(current_state, retries, max_retries)\<close>. From \<^verbatim>\<open>RUNNING\<close> it increments
  \<^verbatim>\<open>retries\<close> and goes to \<^verbatim>\<open>PENDING\<close> if \<^verbatim>\<open>retries + 1 < max_retries\<close>,
  else to \<^verbatim>\<open>FAILED\<close>; from any other state the event is refused. The result is the
  pair \<^verbatim>\<open>(fsm.state, fsm.retries)\<close>.
\<close>

definition TaskFSM_fail :: "val \<Rightarrow> val option \<Rightarrow> val option \<Rightarrow> error + (val \<times> val)" where
  "TaskFSM_fail current_state retries max_retries =
     (if current_state \<noteq> VTaskState RUNNING then Inl InvalidTransition
      else (case retries of
              Some (VInt r) \<Rightarrow>
                (case max_retries of
                   Some (VInt m) \<Rightarrow>
                     Inr (VTaskState (if r + 1 < m then PENDING else FAILED), VInt (r + 1))
                 | _ \<Rightarrow> Inl TypeError)
            | _ \<Rightarrow> Inl TypeError))"

section \<open>The database client\<close>

text \<open>
  The methods of \<^verbatim>\<open>DatabaseClient\<close> (\<^verbatim>\<open>database.py\<close>). Each takes the store
  and returns the result or the raised error together with the store it leaves. The clock
  (\<^verbatim>\<open>get_current_time()\<close>), the password hash and \<^verbatim>\<open>parse_timeout\<close> belong to
  modules outside the sources and are parameters.

  \<open>get_queue\<close> is the first step of every method: find the queue by name, raise 404 if
  there is none.
\<close>

definition get_queue :: "store \<Rightarrow> string \<Rightarrow> error + dict" where
  "get_queue s queue_name =
     (case find_one [(''queue_name'', Eq (VStr queue_name))] (queues s) of
        None \<Rightarrow> Inl (HTTPException 404)
      | Some queue \<Rightarrow> if queue = [] then Inl (HTTPException 404) else Inr queue)"

definition query :: "store \<Rightarrow> string \<Rightarrow> mfilter \<Rightarrow> (error + dict list) \<times> store" where
  "query s queue_name q =
     (case get_queue s queue_name of
        Inl e \<Rightarrow> (Inl e, s)
      | Inr queue \<Rightarrow>
          (case subscript q ''queue_id'' of
             Inl e \<Rightarrow> (Inl e, s)
           | Inr c \<Rightarrow>
               (case subscript queue ''_id'' of
                  Inl e \<Rightarrow> (Inl e, s)
                | Inr qid \<Rightarrow>
                    if c \<noteq> Eq qid then (Inl (HTTPException 400), s)
                    else (Inr (find_many q (tasks s)), s))))"

text \<open>The update document of \<^verbatim>\<open>update\<close> is given by its \<^verbatim>\<open>$set\<close> entry,
  \<open>None\<close> when it has none (\<^verbatim>\<open>update.get("$set")\<close>); \<open>update_set_doc\<close> is
  the \<^verbatim>\<open>$set\<close> entry after the method has put \<^verbatim>\<open>last_modified\<close> into it.\<close>

definition update_set_doc :: "int \<Rightarrow> dict option \<Rightarrow> dict" where
  "update_set_doc now update_set =
     (case update_set of
        None \<Rightarrow> [(''last_modified'', VTime now)]
      | Some u \<Rightarrow>
          if u \<noteq> [] then AList.update ''last_modified'' (VTime now) u
          else [(''last_modified'', VTime now)])"

definition update :: "int \<Rightarrow> store \<Rightarrow> string \<Rightarrow> mfilter \<Rightarrow> dict option \<Rightarrow> (error + bool) \<times> store" where
  "update now s queue_name q update_set =
     (case get_queue s queue_name of
        Inl e \<Rightarrow> (Inl e, s)
      | Inr queue \<Rightarrow>
          (case subscript q ''queue_id'' of
             Inl e \<Rightarrow> (Inl e, s)
           | Inr c \<Rightarrow>
               (case subscript queue ''_id'' of
                  Inl e \<Rightarrow> (Inl e, s)
                | Inr qid \<Rightarrow>
                    if c \<noteq> Eq qid then (Inl (HTTPException 400), s)
                    else
                      (case update_many q (update_set_doc now update_set) (tasks s) of
                         (Inl e, ts) \<Rightarrow> (Inl e, s\<lparr>tasks := ts\<rparr>)
                       | (Inr modified_count, ts) \<Rightarrow>
                           (Inr (modified_count > 0), s\<lparr>tasks := ts\<rparr>)))))"

definition delete_worker :: "int \<Rightarrow> store \<Rightarrow> string \<Rightarrow> string \<Rightarrow> bool \<Rightarrow> (error + bool) \<times> store" where
  "delete_worker now s queue_name worker_id cascade_update =
     (case get_queue s queue_name of
        Inl e \<Rightarrow> (Inl e, s)
      | Inr queue \<Rightarrow>
          (case subscript queue ''_id'' of
             Inl e \<Rightarrow> (Inl e, s)
           | Inr qid \<Rightarrow>
               (case delete_one [(''_id'', Eq (VStr worker_id)), (''queue_id'', Eq qid)]
                       (workers s) of
                  (deleted_count, ws) \<Rightarrow>
                    if deleted_count = 0 then (Inl (HTTPException 404), s)
                    else if cascade_update then
                      (case update_many
                              [(''queue_id'', Eq qid), (''worker_id'', Eq (VStr worker_id))]
                              [(''worker_id'', VNone), (''last_modified'', VTime now)]
                              (tasks s) of
                         (Inl e, ts) \<Rightarrow> (Inl e, s\<lparr>tasks := ts, workers := ws\<rparr>)
                       | (Inr n, ts) \<Rightarrow> (Inr True, s\<lparr>tasks := ts, workers := ws\<rparr>))
                    else (Inr True, s\<lparr>workers := ws\<rparr>))))"

text \<open>In \<^verbatim>\<open>update_queue\<close>, \<^verbatim>\<open>queue["metadata"].update(metadata_update)\<close> is the
  in-place \<^verbatim>\<open>dict.update\<close>: it needs a dict and its value is \<^verbatim>\<open>None\<close>. The
  collection of queues has a unique index on \<^verbatim>\<open>queue_name\<close>.\<close>

definition update_queue ::
  "(string \<Rightarrow> string) \<Rightarrow> int \<Rightarrow> store \<Rightarrow> string \<Rightarrow> string option \<Rightarrow> string option \<Rightarrow> dict option
    \<Rightarrow> (error + bool) \<times> store" where
  "update_queue hash_password now s queue_name new_queue_name new_password metadata_update =
     (case get_queue s queue_name of
        Inl e \<Rightarrow> (Inl e, s)
      | Inr queue \<Rightarrow>
          (case (case new_queue_name of
                   None \<Rightarrow> subscript queue ''queue_name''
                 | Some n \<Rightarrow> if n \<noteq> [] then Inr (VStr n) else subscript queue ''queue_name'') of
             Inl e \<Rightarrow> (Inl e, s)
           | Inr queue_name' \<Rightarrow>
               (case (case new_password of
                        None \<Rightarrow> subscript queue ''password''
                      | Some p \<Rightarrow>
                          if p \<noteq> [] then Inr (VStr (hash_password p))
                          else subscript queue ''password'') of
                  Inl e \<Rightarrow> (Inl e, s)
                | Inr password \<Rightarrow>
                    (case (case subscript queue ''metadata'' of
                             Inl e \<Rightarrow> Inl e
                           | Inr old_metadata \<Rightarrow>
                               if metadata_update \<noteq> None \<and> metadata_update \<noteq> Some [] then
                                 (case old_metadata of
                                    VDict m \<Rightarrow> Inr VNone
                                  | _ \<Rightarrow> Inl AttributeError)
                               else Inr old_metadata) of
                       Inl e \<Rightarrow> (Inl e, s)
                     | Inr metadata \<Rightarrow>
                         (case subscript queue ''_id'' of
                            Inl e \<Rightarrow> (Inl e, s)
                          | Inr qid \<Rightarrow>
                              (case update_one [(''_id'', Eq qid)]
                                      [(''queue_name'', queue_name'), (''password'', password),
                                       (''metadata'', metadata), (''last_modified'', VTime now)]
                                      (queues s) of
                                 (Inl e, qs) \<Rightarrow> (Inl e, s)
                               | (Inr modified_count, qs) \<Rightarrow>
                                   if \<not> distinct (map (\<lambda>d. map_of d ''queue_name'') qs)
                                   then (Inl DuplicateKeyError, s)
                                   else (Inr (modified_count > 0), s\<lparr>queues := qs\<rparr>)))))))"

text \<open>\<^verbatim>\<open>fetch_task\<close>. \<open>verify_worker\<close> is its block "verify worker exists and is
  active", \<open>fetch_query\<close> and \<open>fetch_update\<close> are its local dicts
  \<^verbatim>\<open>query\<close> and \<^verbatim>\<open>update["$set"]\<close>. The query is the dict display
  \<^verbatim>\<open>{"queue_id": ..., "status": PENDING, **(extra_filter or {})}\<close>: a key of
  \<^verbatim>\<open>extra_filter\<close> that is already there replaces its value.\<close>

definition verify_worker :: "store \<Rightarrow> val \<Rightarrow> string option \<Rightarrow> error + unit" where
  "verify_worker s qid worker_id =
     (case worker_id of
        None \<Rightarrow> Inr ()
      | Some w \<Rightarrow>
          if w = [] then Inr ()
          else
            (case find_one [(''_id'', Eq (VStr w)), (''queue_id'', Eq qid)] (workers s) of
               None \<Rightarrow> Inl (HTTPException 404)
             | Some worker_info \<Rightarrow>
                 if worker_info = [] then Inl (HTTPException 404)
                 else
                   (case subscript worker_info ''status'' of
                      Inl e \<Rightarrow> Inl e
                    | Inr worker_status \<Rightarrow>
                        if worker_status \<noteq> VWorkerState ACTIVE then Inl (HTTPException 400)
                        else Inr ())))"

definition fetch_query :: "val \<Rightarrow> mfilter option \<Rightarrow> mfilter" where
  "fetch_query qid extra_filter =
     dict_update [(''queue_id'', Eq qid), (''status'', Eq (VTaskState PENDING))]
       (case extra_filter of None \<Rightarrow> [] | Some f \<Rightarrow> f)"

definition fetch_update :: "int \<Rightarrow> string option \<Rightarrow> int option \<Rightarrow> dict" where
  "fetch_update now worker_id task_timeout =
     [(''status'', VTaskState RUNNING),
      (''start_time'', VTime now),
      (''last_heartbeat'', VTime now),
      (''last_modified'', VTime now),
      (''worker_id'', (case worker_id of None \<Rightarrow> VNone | Some w \<Rightarrow> VStr w))]
     @ (case task_timeout of
          None \<Rightarrow> []
        | Some t \<Rightarrow> if t \<noteq> 0 then [(''task_timeout'', VInt t)] else [])"

definition fetch_task ::
  "(string \<Rightarrow> error + int) \<Rightarrow> int \<Rightarrow> store \<Rightarrow> string \<Rightarrow> string option \<Rightarrow> string option
    \<Rightarrow> mfilter option \<Rightarrow> (error + dict option) \<times> store" where
  "fetch_task parse_timeout now s queue_name worker_id eta_max extra_filter =
     (case (case eta_max of
              None \<Rightarrow> Inr None
            | Some e \<Rightarrow> if e \<noteq> [] then map_sum id Some (parse_timeout e) else Inr None) of
        Inl e \<Rightarrow> (Inl e, s)
      | Inr task_timeout \<Rightarrow>
          (case get_queue s queue_name of
             Inl e \<Rightarrow> (Inl e, s)
           | Inr queue \<Rightarrow>
               (case subscript queue ''_id'' of
                  Inl e \<Rightarrow> (Inl e, s)
                | Inr qid \<Rightarrow>
                    (case verify_worker s qid worker_id of
                       Inl e \<Rightarrow> (Inl e, s)
                     | Inr _ \<Rightarrow>
                         (case find_one_and_update
                                 (fetch_query qid extra_filter)
                                 (fetch_update now worker_id task_timeout)
                                 [(''priority'', -1), (''created_at'', 1)]
                                 (tasks s) of
                            (result, ts) \<Rightarrow> (result, s\<lparr>tasks := ts\<rparr>))))))"

definition update_task_and_reset_pending ::
  "int \<Rightarrow> store \<Rightarrow> string \<Rightarrow> string \<Rightarrow> dict option \<Rightarrow> (error + bool) \<times> store" where
  "update_task_and_reset_pending now s queue_name task_id task_setting_update =
     (case get_queue s queue_name of
        Inl e \<Rightarrow> (Inl e, s)
      | Inr queue \<Rightarrow>
          (case subscript queue ''_id'' of
             Inl e \<Rightarrow> (Inl e, s)
           | Inr qid \<Rightarrow>
               (case update_one [(''_id'', Eq (VStr task_id)), (''queue_id'', Eq qid)]
                       (AList.update ''retries'' (VInt 0)
                          (AList.update ''status'' (VTaskState PENDING)
                             (AList.update ''last_modified'' (VTime now)
                                (flatten_dict
                                   (case task_setting_update of None \<Rightarrow> [] | Some u \<Rightarrow> u) []))))
                       (tasks s) of
                  (Inl e, ts) \<Rightarrow> (Inl e, s\<lparr>tasks := ts\<rparr>)
                | (Inr modified_count, ts) \<Rightarrow> (Inr (modified_count > 0), s\<lparr>tasks := ts\<rparr>))))"

definition cancel_task :: "store \<Rightarrow> string \<Rightarrow> string \<Rightarrow> (error + bool) \<times> store" where
  "cancel_task s queue_name task_id =
     (case get_queue s queue_name of
        Inl e \<Rightarrow> (Inl e, s)
      | Inr queue \<Rightarrow>
          (case subscript queue ''_id'' of
             Inl e \<Rightarrow> (Inl e, s)
           | Inr qid \<Rightarrow>
               (case update_one [(''_id'', Eq (VStr task_id)), (''queue_id'', Eq qid)]
                       [(''status'', VTaskState CANCELLED)]
                       (tasks s) of
                  (Inl e, ts) \<Rightarrow> (Inl e, s\<lparr>tasks := ts\<rparr>)
                | (Inr modified_count, ts) \<Rightarrow> (Inr (modified_count > 0), s\<lparr>tasks := ts\<rparr>))))"

text \<open>
  \<^verbatim>\<open>handle_timeouts\<close>. Its query is a constant but for \<^verbatim>\<open>now\<close>:
  \<^verbatim>\<open>status = RUNNING\<close> and one of two branches, each the conjunction of two
  \<^verbatim>\<open>{"$ne": None}\<close> guards and an \<^verbatim>\<open>$expr\<close>. \<open>elapsed_gt\<close> is that
  expression, \<^verbatim>\<open>(now - $time) / 1000 > $timeout\<close>, read once both guards hold: the
  difference of two dates is in milliseconds, anything but a date under
  \<^verbatim>\<open>$subtract\<close> and \<^verbatim>\<open>$divide\<close> fails the query, and a number is greater
  than \<^verbatim>\<open>null\<close> and less than a value of any other type.
\<close>

definition elapsed_gt :: "int \<Rightarrow> val \<Rightarrow> val \<Rightarrow> error + bool" where
  "elapsed_gt now t timeout =
     (case t of
        VTime t0 \<Rightarrow>
          Inr (case timeout of
                 VInt n \<Rightarrow> (of_int (now - t0) :: rat) / 1000 > of_int n
               | VFloat r \<Rightarrow> (of_int (now - t0) :: rat) / 1000 > r
               | VNone \<Rightarrow> True
               | _ \<Rightarrow> False)
      | _ \<Rightarrow> Inl OperationFailure)"

definition timed_out :: "int \<Rightarrow> dict \<Rightarrow> string \<Rightarrow> string \<Rightarrow> error + bool" where
  "timed_out now d time_key timeout_key =
     (if holds time_key (Ne VNone) d \<and> holds timeout_key (Ne VNone) d then
        (case (field d time_key, field d timeout_key) of
           (Some t, Some timeout) \<Rightarrow> elapsed_gt now t timeout
         | _ \<Rightarrow> Inr False)
      else Inr False)"

definition timeout_query :: "int \<Rightarrow> dict \<Rightarrow> error + bool" where
  "timeout_query now d =
     (if \<not> holds ''status'' (Eq (VTaskState RUNNING)) d then Inr False
      else (case timed_out now d ''last_heartbeat'' ''heartbeat_timeout'' of
              Inl e \<Rightarrow> Inl e
            | Inr True \<Rightarrow> Inr True
            | Inr False \<Rightarrow> timed_out now d ''start_time'' ''task_timeout''))"

fun find_timeouts :: "int \<Rightarrow> dict list \<Rightarrow> error + dict list" where
  "find_timeouts now [] = Inr []"
| "find_timeouts now (d # ds) =
     (case timeout_query now d of
        Inl e \<Rightarrow> Inl e
      | Inr hit \<Rightarrow>
          (case find_timeouts now ds of
             Inl e \<Rightarrow> Inl e
           | Inr found \<Rightarrow> Inr (if hit then d # found else found)))"

text \<open>The body of the \<^verbatim>\<open>try\<close> for one task: the state machine, then the write;
  it gives the id of the task, the \<^verbatim>\<open>modified_count\<close> and the collection.\<close>

definition fail_task :: "int \<Rightarrow> dict \<Rightarrow> dict list \<Rightarrow> error + (val \<times> nat \<times> dict list)" where
  "fail_task now task c =
     (case subscript task ''status'' of
        Inl e \<Rightarrow> Inl e
      | Inr current_state \<Rightarrow>
          (case TaskFSM_fail current_state (map_of task ''retries'') (map_of task ''max_retries'') of
             Inl e \<Rightarrow> Inl e
           | Inr (state, retries) \<Rightarrow>
               (case subscript task ''_id'' of
                  Inl e \<Rightarrow> Inl e
                | Inr task_id \<Rightarrow>
                    (case update_one [(''_id'', Eq task_id)]
                            [(''status'', state), (''retries'', retries),
                             (''last_modified'', VTime now),
                             (''summary.labtasker_error'',
                                VStr ''Either heartbeat or task execution timed out'')]
                            c of
                       (Inl e, c') \<Rightarrow> Inl e
                     | (Inr modified_count, c') \<Rightarrow> Inr (task_id, modified_count, c')))))"

text \<open>The loop over the tasks found. An error of the body is caught and the loop goes on;
  the handler prints \<^verbatim>\<open>task['_id']\<close>, a subscript of its own.\<close>

fun sweep :: "int \<Rightarrow> dict list \<Rightarrow> dict list \<Rightarrow> val list \<Rightarrow> (error + val list) \<times> dict list" where
  "sweep now [] c transitioned_tasks = (Inr transitioned_tasks, c)"
| "sweep now (task # rest) c transitioned_tasks =
     (case fail_task now task c of
        Inr (task_id, modified_count, c') \<Rightarrow>
          sweep now rest c'
            (if modified_count > 0 then transitioned_tasks @ [task_id] else transitioned_tasks)
      | Inl e \<Rightarrow>
          (case subscript task ''_id'' of
             Inl e' \<Rightarrow> (Inl e', c)
           | Inr _ \<Rightarrow> sweep now rest c transitioned_tasks))"

definition handle_timeouts :: "int \<Rightarrow> store \<Rightarrow> (error + val list) \<times> store" where
  "handle_timeouts now s =
     (case find_timeouts now (tasks s) of
        Inl e \<Rightarrow> (Inl e, s)
      | Inr found \<Rightarrow>
          (case sweep now found (tasks s) [] of
             (r, ts) \<Rightarrow> (r, s\<lparr>tasks := ts\<rparr>)))"

section \<open>An example store\<close>

text \<open>A queue \<^verbatim>\<open>exp1\<close> with one worker, and tasks as \<^verbatim>\<open>create_task\<close>
  builds them; \<open>example_task\<close> gives the fields that vary.\<close>

definition example_queue :: dict where
  "example_queue =
     [(''_id'', VStr ''q1''), (''queue_name'', VStr ''exp1''), (''password'', VStr ''h''),
      (''created_at'', VTime 0), (''last_modified'', VTime 0),
      (''metadata'', VDict [(''owner'', VStr ''ann'')])]"

definition example_worker :: dict where
  "example_worker =
     [(''_id'', VStr ''w1''), (''queue_id'', VStr ''q1''), (''status'', VWorkerState ACTIVE),
      (''worker_name'', VNone), (''metadata'', VDict []), (''retries'', VInt 0),
      (''max_retries'', VInt 3), (''created_at'', VTime 0), (''last_modified'', VTime 0)]"

definition example_task :: "string \<Rightarrow> string \<Rightarrow> TaskState \<Rightarrow> int \<Rightarrow> int \<Rightarrow> val \<Rightarrow> dict" where
  "example_task task_id queue_id st priority created worker =
     [(''_id'', VStr task_id), (''queue_id'', VStr queue_id), (''status'', VTaskState st),
      (''task_name'', VNone), (''created_at'', VTime created), (''start_time'', VNone),
      (''last_heartbeat'', VNone), (''last_modified'', VTime created),
      (''heartbeat_timeout'', VInt 60), (''task_timeout'', VNone), (''max_retries'', VInt 3),
      (''retries'', VInt 0), (''priority'', VInt priority), (''metadata'', VDict []),
      (''args'', VDict []), (''summary'', VDict []), (''worker_id'', worker)]"

definition example_store :: store where
  "example_store =
     \<lparr>queues = [example_queue],
      tasks = [example_task ''a'' ''q1'' PENDING 10 1 VNone,
               example_task ''b'' ''q1'' PENDING 20 2 VNone,
               example_task ''c'' ''q1'' RUNNING 30 3 (VStr ''w1''),
               example_task ''d'' ''q2'' PENDING 40 4 VNone],
      workers = [example_worker]\<rparr>"

text \<open>The task \<open>example_task task_id queue_id PENDING priority created VNone\<close> once
  \<^verbatim>\<open>fetch_task\<close> has claimed it at the instant \<open>now\<close>.\<close>

definition example_claimed :: "string \<Rightarrow> string \<Rightarrow> int \<Rightarrow> int \<Rightarrow> int \<Rightarrow> val \<Rightarrow> dict" where
  "example_claimed task_id queue_id priority created now worker =
     [(''_id'', VStr task_id), (''queue_id'', VStr queue_id), (''status'', VTaskState RUNNING),
      (''task_name'', VNone), (''created_at'', VTime created), (''start_time'', VTime now),
      (''last_heartbeat'', VTime now), (''last_modified'', VTime now),
      (''heartbeat_timeout'', VInt 60), (''task_timeout'', VNone), (''max_retries'', VInt 3),
      (''retries'', VInt 0), (''priority'', VInt priority), (''metadata'', VDict []),
      (''args'', VDict []), (''summary'', VDict []), (''worker_id'', worker)]"

text \<open>Two tasks claimed at the instant 0 and silent since: \<open>x\<close> with a heartbeat
  timeout of 60 seconds, \<open>y\<close> with neither timeout.\<close>

definition example_running :: "string \<Rightarrow> val \<Rightarrow> val \<Rightarrow> dict" where
  "example_running task_id heartbeat_timeout task_timeout =
     [(''_id'', VStr task_id), (''queue_id'', VStr ''q1''), (''status'', VTaskState RUNNING),
      (''task_name'', VNone), (''created_at'', VTime 0), (''start_time'', VTime 0),
      (''last_heartbeat'', VTime 0), (''last_modified'', VTime 0),
      (''heartbeat_timeout'', heartbeat_timeout), (''task_timeout'', task_timeout),
      (''max_retries'', VInt 3), (''retries'', VInt 0), (''priority'', VInt 10),
      (''metadata'', VDict []), (''args'', VDict []), (''summary'', VDict []),
      (''worker_id'', VNone)]"

definition sweep_store :: store where
  "sweep_store =
     \<lparr>queues = [example_queue],
      tasks = [example_running ''x'' (VInt 60) VNone, example_running ''y'' VNone VNone],
      workers = []\<rparr>"

section \<open>Fetching in the words of the spec\<close>

text \<open>
  "Selects at most one task matching \<^verbatim>\<open>{queue_id, status=PENDING, ...extra_filter}\<close>,
  ordered by \<^verbatim>\<open>priority DESC, created_at ASC\<close>". \<open>eligible qid f d\<close> says that the
  task \<open>d\<close> is in the queue \<open>qid\<close>, is pending and matches the extra filter \<open>f\<close>;
  \<open>priority_of\<close> and \<open>created_of\<close> read the two sort fields of a task that has them
  as \<^verbatim>\<open>create_task\<close> writes them, an integer and a time stamp; \<open>claim now d\<close> is
  the task \<open>d\<close> once a fetch without worker has claimed it.
\<close>

definition eligible :: "val \<Rightarrow> mfilter \<Rightarrow> dict \<Rightarrow> bool" where
  "eligible qid f d =
     (field_eq (map_of d ''queue_id'') qid \<and> map_of d ''status'' = Some (VTaskState PENDING)
      \<and> matches f d)"

definition priority_of :: "dict \<Rightarrow> int option" where
  "priority_of d = (case map_of d ''priority'' of Some (VInt p) \<Rightarrow> Some p | _ \<Rightarrow> None)"

definition created_of :: "dict \<Rightarrow> int option" where
  "created_of d = (case map_of d ''created_at'' of Some (VTime c) \<Rightarrow> Some c | _ \<Rightarrow> None)"

definition claim :: "int \<Rightarrow> dict \<Rightarrow> dict" where
  "claim now d =
     AList.update ''worker_id'' VNone
       (AList.update ''last_modified'' (VTime now)
          (AList.update ''last_heartbeat'' (VTime now)
             (AList.update ''start_time'' (VTime now)
                (AList.update ''status'' (VTaskState RUNNING) d))))"

text \<open>A client that fetches once at each instant of a list, without worker, ETA or extra
  filter, and collects what it gets ("fetching N times").\<close>

fun fetch_times ::
  "(string \<Rightarrow> error + int) \<Rightarrow> int list \<Rightarrow> store \<Rightarrow> string \<Rightarrow> dict option list \<times> store" where
  "fetch_times parse_timeout [] s queue_name = ([], s)"
| "fetch_times parse_timeout (now # nows) s queue_name =
     (case fetch_task parse_timeout now s queue_name None None None of
        (Inl e, s') \<Rightarrow> ([], s')
      | (Inr result, s') \<Rightarrow>
          (case fetch_times parse_timeout nows s' queue_name of
             (results, s'') \<Rightarrow> (result # results, s'')))"

section \<open>The update guard in the words of the spec\<close>

text \<open>"Updates touching any of the reserved fields fail; recursively inspects nested
  mappings": \<open>mentions banned d\<close> says that a banned key occurs in \<open>d\<close> at some
  nesting level.\<close>

fun mentions :: "string list \<Rightarrow> dict \<Rightarrow> bool" where
  "mentions banned [] = False"
| "mentions banned ((k, VDict sub) # d) =
     (k \<in> set banned \<or> mentions banned sub \<or> mentions banned d)"
| "mentions banned ((k, v) # d) = (k \<in> set banned \<or> mentions banned d)"

definition reserved_fields :: "string list" where
  "reserved_fields = [''_id'', ''queue_id'', ''created_at'', ''last_modified'']"

section \<open>Properties of arg_match\<close>

lemma arg_match_keys_differ:
  "set (map fst required) \<noteq> set (map fst provided) \<Longrightarrow>
   arg_match (VDict required) (VDict provided) = Inr False"
  by simp

text \<open>
  Claim C7, as stated: with \<^verbatim>\<open>provided = args.model\<close>, the required tree
  \<^verbatim>\<open>{model: {name: None}}\<close> matches and \<^verbatim>\<open>{model: {size: None}}\<close> does not.
  The first half fails on the code: the key sets \<open>{model}\<close> and \<open>{name, lr}\<close> differ at
  the top level, and the function answers \<^verbatim>\<open>False\<close> ("no more, no less").
\<close>

theorem arg_match_scenario_counterexample:
  "\<not> (arg_match (VDict [(''model'', VDict [(''name'', VNone)])]) args_model = Inr True
      \<and> arg_match (VDict [(''model'', VDict [(''size'', VNone)])]) args_model = Inr False)"
  by (simp add: args_model_def)

text \<open>
  Claim C7, amended: for \<^verbatim>\<open>args = {model: {name: "x", lr: 0.1}}\<close>, \<^verbatim>\<open>arg_match\<close>
  with \<^verbatim>\<open>required = {model: {name: None}}\<close> and \<^verbatim>\<open>provided = args.model\<close>
  returns false, and with \<^verbatim>\<open>required = {model: {size: None}}\<close> and the same
  \<^verbatim>\<open>provided\<close> it returns false as well.
\<close>

theorem arg_match_scenario:
  "arg_match (VDict [(''model'', VDict [(''name'', VNone)])]) args_model = Inr False
   \<and> arg_match (VDict [(''model'', VDict [(''size'', VNone)])]) args_model = Inr False"
  by (simp add: args_model_def)

text \<open>What does match the arguments of the scenario: a required tree that names every key
  of a level, or one that stops at \<^verbatim>\<open>None\<close> above it.\<close>

lemma arg_match_scenario_matching:
  "arg_match (VDict [(''name'', VNone), (''lr'', VNone)]) args_model = Inr True"
  "arg_match (VDict [(''model'', VNone)]) scenario_args = Inr True"
  "arg_match (VDict [(''model'', VDict [(''name'', VNone)])]) scenario_args = Inr False"
  by (simp_all add: args_model_def scenario_args_def subscript_def)

section \<open>Properties of the store\<close>

lemma split_path_plain: "CHR ''.'' \<notin> set k \<Longrightarrow> split_path k = [k]"
  by (induction k) auto

lemma field_plain: "CHR ''.'' \<notin> set k \<Longrightarrow> field d k = map_of d k"
  by (simp add: field_def split_path_plain)

lemma set_field_plain:
  "CHR ''.'' \<notin> set k \<Longrightarrow> k \<noteq> ''_id'' \<Longrightarrow> set_field d k v = Some (AList.update k v d)"
  by (simp add: set_field_def split_path_plain)

lemma matches_entry: "matches f d \<Longrightarrow> map_of f k = Some c \<Longrightarrow> holds k c d"
  by (auto simp: matches_def list_all_iff dest: map_of_SomeD)

lemma matches_sanitize_query:
  "matches (sanitize_query queue_id q) d =
     (field_eq (map_of d ''queue_id'') (VStr queue_id) \<and> matches q d)"
  by (simp add: sanitize_query_def matches_def field_plain)

lemma matches_scoped:
  assumes "map_of q ''queue_id'' = Some (Eq (VStr queue_id))"
  shows "matches q d = matches (sanitize_query queue_id q) d"
  using matches_entry[of q d "''queue_id''" "Eq (VStr queue_id)"] assms
  by (auto simp add: matches_sanitize_query field_plain)

lemma update_many_cong:
  "(\<And>d. matches f d = matches g d) \<Longrightarrow> update_many f u c = update_many g u c"
  by (induction c) (auto split: option.splits prod.splits)

lemmas store_eval = example_store_def example_queue_def example_task_def example_worker_def
  get_queue_def find_one_def find_many_def matches_def field_def field_eq_def subscript_def
  set_field_def sort_keys_def dict_update_def sanitize_query_def update_set_doc_def

lemma update_result:
  assumes "update now s queue_name q u = (r, s')"
  shows "(s' = s \<and> (\<exists>e. r = Inl e)) \<or>
   (\<exists>queue qid. get_queue s queue_name = Inr queue \<and> map_of queue ''_id'' = Some qid
      \<and> map_of q ''queue_id'' = Some (Eq qid)
      \<and> s' = s\<lparr>tasks := snd (update_many q (update_set_doc now u) (tasks s))\<rparr>)"
proof (cases "get_queue s queue_name")
  case (Inl e)
  with assms show ?thesis by (auto simp add: update_def)
next
  case queue: (Inr queue)
  show ?thesis
  proof (cases "map_of q ''queue_id''")
    case None
    with assms queue show ?thesis by (auto simp add: update_def subscript_def)
  next
    case c: (Some c)
    show ?thesis
    proof (cases "map_of queue ''_id''")
      case None
      with assms queue c show ?thesis by (auto simp add: update_def subscript_def)
    next
      case qid: (Some qid)
      show ?thesis
      proof (cases "c = Eq qid")
        case False
        with assms queue c qid show ?thesis by (auto simp add: update_def subscript_def)
      next
        case True
        obtain r' ts where um: "update_many q (update_set_doc now u) (tasks s) = (r', ts)"
          by (cases "update_many q (update_set_doc now u) (tasks s)")
        with assms queue c qid True have "s' = s\<lparr>tasks := ts\<rparr>"
          by (cases r') (auto simp add: update_def subscript_def)
        with queue c qid True um show ?thesis by auto
      qed
    qed
  qed
qed

section \<open>Scope of the general query and update\<close>

text \<open>
  Claim C6, as stated: for every call of \<^verbatim>\<open>query\<close> or \<^verbatim>\<open>update\<close> on an
  existing queue the effective filter is the caller's filter combined with
  \<^verbatim>\<open>queue_id == <resolved id>\<close> as a conjunction, and a filter that embeds another
  \<^verbatim>\<open>queue_id\<close> is refused with 400. The methods do not combine anything: they
  compare the \<^verbatim>\<open>queue_id\<close> entry that the caller supplied. On the filter
  \<^verbatim>\<open>{status: PENDING}\<close>, where the conjunction with the scope of \<^verbatim>\<open>exp1\<close>
  selects the tasks \<open>a\<close> and \<open>b\<close>, both methods raise \<^verbatim>\<open>KeyError\<close>.
\<close>

theorem query_update_unscoped_counterexample:
  "query example_store ''exp1'' [(''status'', Eq (VTaskState PENDING))] =
     (Inl KeyError, example_store)
   \<and> update 9 example_store ''exp1'' [(''status'', Eq (VTaskState PENDING))] None =
     (Inl KeyError, example_store)
   \<and> find_many (sanitize_query ''q1'' [(''status'', Eq (VTaskState PENDING))])
       (tasks example_store) =
     [example_task ''a'' ''q1'' PENDING 10 1 VNone, example_task ''b'' ''q1'' PENDING 20 2 VNone]"
  by (simp add: store_eval query_def update_def)

text \<open>
  Claim C6, amended: for every call of \<^verbatim>\<open>query\<close> or \<^verbatim>\<open>update\<close> on an
  existing queue with a filter that carries a \<^verbatim>\<open>queue_id\<close> entry, the call fails
  with 400 (bad request) if that entry is not the id of the resolved queue; otherwise the
  caller's filter reaches the store as it is and is there equivalent to
  \<^verbatim>\<open>sanitize_query\<close> of the queue's id and the filter, which matches a task exactly
  when its \<^verbatim>\<open>queue_id\<close> is the resolved id and the caller's filter matches.
\<close>

theorem query_update_scope:
  assumes "get_queue s queue_name = Inr queue" and "map_of queue ''_id'' = Some (VStr qid)"
    and "map_of q ''queue_id'' = Some c"
  shows "(if c \<noteq> Eq (VStr qid)
          then query s queue_name q = (Inl (HTTPException 400), s)
             \<and> update now s queue_name q u = (Inl (HTTPException 400), s)
          else query s queue_name q = (Inr (find_many (sanitize_query qid q) (tasks s)), s)
             \<and> update now s queue_name q u =
                 (map_sum id (\<lambda>modified_count. modified_count > 0)
                    (fst (update_many (sanitize_query qid q) (update_set_doc now u) (tasks s))),
                  s\<lparr>tasks := snd (update_many (sanitize_query qid q) (update_set_doc now u)
                                     (tasks s))\<rparr>))
         \<and> (\<forall>d. matches (sanitize_query qid q) d =
                (field_eq (map_of d ''queue_id'') (VStr qid) \<and> matches q d))"
proof (cases "c = Eq (VStr qid)")
  case False
  with assms show ?thesis
    by (simp add: query_def update_def subscript_def matches_sanitize_query)
next
  case True
  with assms(3) have k: "map_of q ''queue_id'' = Some (Eq (VStr qid))" by simp
  have fm: "find_many q (tasks s) = find_many (sanitize_query qid q) (tasks s)"
    unfolding find_many_def using matches_scoped[OF k] by (intro filter_cong) auto
  have um: "update_many q (update_set_doc now u) (tasks s) =
        update_many (sanitize_query qid q) (update_set_doc now u) (tasks s)"
    by (rule update_many_cong) (rule matches_scoped[OF k])
  obtain r ts where rt: "update_many (sanitize_query qid q) (update_set_doc now u) (tasks s) = (r, ts)"
    by (cases "update_many (sanitize_query qid q) (update_set_doc now u) (tasks s)")
  have "query s queue_name q = (Inr (find_many (sanitize_query qid q) (tasks s)), s)"
    using assms True fm by (simp add: query_def subscript_def)
  moreover have "update now s queue_name q u =
                 (map_sum id (\<lambda>modified_count. modified_count > 0) r, s\<lparr>tasks := ts\<rparr>)"
    using assms True um rt by (cases r) (simp_all add: update_def subscript_def)
  ultimately show ?thesis using True rt by (simp add: matches_sanitize_query)
qed

theorem query_update_scope_witness:
  "get_queue example_store ''exp1'' = Inr example_queue
   \<and> map_of example_queue ''_id'' = Some (VStr ''q1'')
   \<and> map_of [(''queue_id'', Eq (VStr ''q1'')), (''status'', Eq (VTaskState PENDING))] ''queue_id''
       = Some (Eq (VStr ''q1''))
   \<and> query example_store ''exp1''
         [(''queue_id'', Eq (VStr ''q1'')), (''status'', Eq (VTaskState PENDING))] =
       (Inr [example_task ''a'' ''q1'' PENDING 10 1 VNone,
             example_task ''b'' ''q1'' PENDING 20 2 VNone], example_store)
   \<and> query example_store ''exp1'' [(''queue_id'', Eq (VStr ''q2''))] =
       (Inl (HTTPException 400), example_store)
   \<and> update 9 example_store ''exp1'' [(''queue_id'', Eq (VStr ''q2''))] None =
       (Inl (HTTPException 400), example_store)"
proof -
  have h1: "get_queue example_store ''exp1'' = Inr example_queue"
    by (simp add: store_eval)
  have h2: "map_of example_queue ''_id'' = Some (VStr ''q1'')"
    by (simp add: example_queue_def)
  have h3: "map_of [(''queue_id'', Eq (VStr ''q1'')), (''status'', Eq (VTaskState PENDING))] ''queue_id''
       = Some (Eq (VStr ''q1''))"
    by simp
  have h4: "map_of [(''queue_id'', Eq (VStr ''q2''))] ''queue_id'' = Some (Eq (VStr ''q2''))"
    by simp
  have r: "find_many (sanitize_query ''q1''
              [(''queue_id'', Eq (VStr ''q1'')), (''status'', Eq (VTaskState PENDING))])
             (tasks example_store) =
           [example_task ''a'' ''q1'' PENDING 10 1 VNone, example_task ''b'' ''q1'' PENDING 20 2 VNone]"
    by (simp add: store_eval)
  from query_update_scope[OF h1 h2 h3, of 9 None] query_update_scope[OF h1 h2 h4, of 9 None]
    h1 h2 r
  show ?thesis by simp
qed

text \<open>
  Claim C10: \<^verbatim>\<open>query\<close> and \<^verbatim>\<open>update\<close> read
  \<^verbatim>\<open>query["queue_id"]\<close> unconditionally. For every call on an existing queue whose
  filter has no \<^verbatim>\<open>queue_id\<close> key they raise \<^verbatim>\<open>KeyError\<close>, neither a 400
  nor a scoped query, and the store is untouched.
\<close>

theorem query_update_missing_queue_id:
  assumes "get_queue s queue_name = Inr queue" and "map_of q ''queue_id'' = None"
  shows "query s queue_name q = (Inl KeyError, s) \<and> update now s queue_name q u = (Inl KeyError, s)"
  using assms by (simp add: query_def update_def subscript_def)

theorem query_update_missing_queue_id_witness:
  "get_queue example_store ''exp1'' = Inr example_queue
   \<and> map_of [(''status'', Eq (VTaskState PENDING))] ''queue_id'' = None
   \<and> query example_store ''exp1'' [(''status'', Eq (VTaskState PENDING))] = (Inl KeyError, example_store)
   \<and> update 9 example_store ''exp1'' [(''status'', Eq (VTaskState PENDING))]
        (Some [(''priority'', VInt 0)]) = (Inl KeyError, example_store)"
proof -
  have h1: "get_queue example_store ''exp1'' = Inr example_queue"
    by (simp add: store_eval)
  have h2: "map_of [(''status'', Eq (VTaskState PENDING))] ''queue_id'' = None"
    by simp
  from query_update_missing_queue_id[OF h1 h2, of 9 "Some [(''priority'', VInt 0)]"] h1 h2
  show ?thesis by simp
qed

section \<open>Writes to one collection\<close>

lemma update_one_length: "length (snd (update_one f u c)) = length c"
  by (induction c) (auto split: option.splits prod.splits)

lemma update_one_frame:
  "i < length c \<Longrightarrow> \<not> matches f (c ! i) \<Longrightarrow> snd (update_one f u c) ! i = c ! i"
proof (induction c arbitrary: i)
  case Nil
  then show ?case by simp
next
  case (Cons d ds)
  then show ?case
    by (cases i) (auto split: option.splits prod.splits)
qed

lemma update_one_total:
  assumes "\<And>d. apply_set u d = Some (g d)"
  shows "i < length c \<Longrightarrow> snd (update_one f u c) ! i = c ! i \<or> snd (update_one f u c) ! i = g (c ! i)"
proof (induction c arbitrary: i)
  case Nil
  then show ?case by simp
next
  case (Cons d ds)
  show ?case
  proof (cases i)
    case 0
    then show ?thesis by (auto simp add: assms split: prod.splits)
  next
    case (Suc j)
    with Cons.prems have "j < length ds" by simp
    from Cons.IH[OF this] Suc show ?thesis
      by (auto simp add: assms split: prod.splits)
  qed
qed

lemma update_many_total:
  assumes "\<And>d. apply_set u d = Some (g d)"
  shows "snd (update_many f u c) = map (\<lambda>d. if matches f d then g d else d) c
         \<and> (\<exists>n. fst (update_many f u c) = Inr n)"
  by (induction c) (auto simp add: assms split: prod.splits)

lemma find_one_matches: "find_one f c = Some w \<Longrightarrow> matches f w \<and> w \<in> set c"
  by (induction c) (auto simp add: find_one_def split: if_splits)

lemma delete_one_found: "find_one f c = Some w \<Longrightarrow> delete_one f c = (1, remove1 w c)"
proof (induction c)
  case Nil
  then show ?case by (simp add: find_one_def)
next
  case (Cons d ds)
  show ?case
  proof (cases "matches f d")
    case True
    with Cons.prems show ?thesis by (simp add: find_one_def)
  next
    case False
    with Cons.prems have w: "find_one f ds = Some w" by (simp add: find_one_def)
    from find_one_matches[OF w] False have "d \<noteq> w" by auto
    with False Cons.IH[OF w] show ?thesis by simp
  qed
qed

lemma update_one_map_of:
  assumes "\<And>d. apply_set u d = Some (g d)" and "\<And>d. map_of (g d) k = map_of d k"
  shows "map (\<lambda>d. map_of d k) (snd (update_one f u c)) = map (\<lambda>d. map_of d k) c"
  by (induction c) (auto simp add: assms split: prod.splits)

lemma find_one_and_update_cases:
  assumes "find_one_and_update f u srt c = (r, c')"
  shows "(sort_key (sort_keys srt) (filter (matches f) c) = [] \<and> r = Inr None \<and> c' = c)
       \<or> (\<exists>d ds. sort_key (sort_keys srt) (filter (matches f) c) = d # ds \<and>
             ((apply_set u d = None \<and> r = Inl WriteError \<and> c' = c)
              \<or> (\<exists>t. apply_set u d = Some t \<and> r = Inr (Some t) \<and> c' = replace_first d t c)))"
  using assms
  by (cases "sort_key (sort_keys srt) (filter (matches f) c)")
     (auto simp add: find_one_and_update_def split: option.splits)

lemma replace_first_mem: "d \<in> set c \<Longrightarrow> t \<in> set (replace_first d t c)"
  by (induction c) auto

lemma sort_key_head:
  assumes "sort_key k xs = y # ys"
  shows "y \<in> set xs \<and> (\<forall>x \<in> set xs. k y \<le> k x)"
proof -
  have "set (sort_key k xs) = set xs" by simp
  with assms have y: "y \<in> set xs" and s: "set xs = insert y (set ys)" by auto
  have "sorted (map k (sort_key k xs))" by (rule sorted_sort_key)
  with assms have "\<forall>x \<in> set ys. k y \<le> k x" by simp
  with y s show ?thesis by auto
qed

section \<open>Deleting a worker\<close>

lemma apply_set_cascade:
  "apply_set [(''worker_id'', VNone), (''last_modified'', VTime now)] d =
     Some (AList.update ''last_modified'' (VTime now) (AList.update ''worker_id'' VNone d))"
  by (simp add: set_field_plain)

text \<open>
  Claim C9: \<^verbatim>\<open>delete_worker\<close> with \<^verbatim>\<open>cascade_update = True\<close> deletes the
  worker record and patches every task of the queue whose \<^verbatim>\<open>worker_id\<close> is that of
  the worker: \<^verbatim>\<open>worker_id\<close> becomes null and \<^verbatim>\<open>last_modified\<close> the time of
  the call, every other field of such a task (status, retries, start time, last heartbeat
  among them) is as before, and every other task is untouched.
\<close>

theorem delete_worker_cascade:
  assumes "get_queue s queue_name = Inr queue" and "map_of queue ''_id'' = Some qid"
    and "find_one [(''_id'', Eq (VStr worker_id)), (''queue_id'', Eq qid)] (workers s) = Some w"
  shows "delete_worker now s queue_name worker_id True =
           (Inr True,
            s\<lparr>tasks := map (\<lambda>t. if field_eq (map_of t ''queue_id'') qid
                                     \<and> map_of t ''worker_id'' = Some (VStr worker_id)
                                  then AList.update ''last_modified'' (VTime now)
                                         (AList.update ''worker_id'' VNone t)
                                  else t) (tasks s),
              workers := remove1 w (workers s)\<rparr>)
         \<and> (\<forall>t. map_of (AList.update ''last_modified'' (VTime now)
                           (AList.update ''worker_id'' VNone t)) =
                 (map_of t)(''worker_id'' \<mapsto> VNone, ''last_modified'' \<mapsto> VTime now))"
proof
  let ?f = "[(''queue_id'', Eq qid), (''worker_id'', Eq (VStr worker_id))]"
  let ?u = "[(''worker_id'', VNone), (''last_modified'', VTime now)]"
  let ?g = "\<lambda>d. AList.update ''last_modified'' (VTime now) (AList.update ''worker_id'' VNone d)"
  have m: "matches ?f t = (field_eq (map_of t ''queue_id'') qid
                            \<and> map_of t ''worker_id'' = Some (VStr worker_id))" for t
    by (auto simp add: matches_def field_plain field_eq_def split: option.splits)
  from update_many_total[of ?u ?g ?f "tasks s"] apply_set_cascade
  obtain n where um: "update_many ?f ?u (tasks s) = (Inr n, map (\<lambda>d. if matches ?f d then ?g d else d) (tasks s))"
    by (cases "update_many ?f ?u (tasks s)") auto
  from assms um show "delete_worker now s queue_name worker_id True =
           (Inr True,
            s\<lparr>tasks := map (\<lambda>t. if field_eq (map_of t ''queue_id'') qid
                                     \<and> map_of t ''worker_id'' = Some (VStr worker_id)
                                  then ?g t else t) (tasks s),
              workers := remove1 w (workers s)\<rparr>)"
    by (simp add: delete_worker_def subscript_def delete_one_found m)
next
  show "\<forall>t. map_of (AList.update ''last_modified'' (VTime now)
                           (AList.update ''worker_id'' VNone t)) =
                 (map_of t)(''worker_id'' \<mapsto> VNone, ''last_modified'' \<mapsto> VTime now)"
    by (simp add: update_conv')
qed

theorem delete_worker_cascade_witness:
  "get_queue example_store ''exp1'' = Inr example_queue
   \<and> map_of example_queue ''_id'' = Some (VStr ''q1'')
   \<and> find_one [(''_id'', Eq (VStr ''w1'')), (''queue_id'', Eq (VStr ''q1''))] (workers example_store)
       = Some example_worker
   \<and> delete_worker 9 example_store ''exp1'' ''w1'' True =
       (Inr True,
        example_store\<lparr>tasks :=
           [example_task ''a'' ''q1'' PENDING 10 1 VNone,
            example_task ''b'' ''q1'' PENDING 20 2 VNone,
            AList.update ''last_modified'' (VTime 9) (example_task ''c'' ''q1'' RUNNING 30 3 VNone),
            example_task ''d'' ''q2'' PENDING 40 4 VNone],
          workers := []\<rparr>)"
proof -
  have h1: "get_queue example_store ''exp1'' = Inr example_queue"
    by (simp add: store_eval)
  have h2: "map_of example_queue ''_id'' = Some (VStr ''q1'')"
    by (simp add: example_queue_def)
  have h3: "find_one [(''_id'', Eq (VStr ''w1'')), (''queue_id'', Eq (VStr ''q1''))] (workers example_store)
       = Some example_worker"
    by (simp add: store_eval)
  from delete_worker_cascade[OF h1 h2 h3, of 9] h1 h2 h3
  show ?thesis by (simp add: store_eval)
qed

section \<open>Fetching a task\<close>

lemma fetch_task_cases:
  assumes "fetch_task parse_timeout now s queue_name worker_id eta_max extra_filter = (Inr res, s')"
  shows "\<exists>queue qid task_timeout. get_queue s queue_name = Inr queue
      \<and> map_of queue ''_id'' = Some qid
      \<and> verify_worker s qid worker_id = Inr ()
      \<and> find_one_and_update (fetch_query qid extra_filter)
            (fetch_update now worker_id task_timeout)
            [(''priority'', -1), (''created_at'', 1)] (tasks s) = (Inr res, tasks s')
      \<and> s' = s\<lparr>tasks := tasks s'\<rparr>"
proof -
  let ?tt = "(case eta_max of
              None \<Rightarrow> Inr None
            | Some e \<Rightarrow> if e \<noteq> [] then map_sum id Some (parse_timeout e) else Inr None)"
  show ?thesis
  proof (cases ?tt)
    case (Inl e)
    with assms show ?thesis by (simp add: fetch_task_def)
  next
    case tt: (Inr task_timeout)
    show ?thesis
    proof (cases "get_queue s queue_name")
      case (Inl e)
      with assms tt show ?thesis by (simp add: fetch_task_def)
    next
      case queue: (Inr queue)
      show ?thesis
      proof (cases "map_of queue ''_id''")
        case None
        with assms tt queue show ?thesis by (simp add: fetch_task_def subscript_def)
      next
        case qid: (Some qid)
        show ?thesis
        proof (cases "verify_worker s qid worker_id")
          case (Inl e)
          with assms tt queue qid show ?thesis by (simp add: fetch_task_def subscript_def)
        next
          case vw: (Inr u)
          obtain r ts where fu: "find_one_and_update (fetch_query qid extra_filter)
            (fetch_update now worker_id task_timeout)
            [(''priority'', -1), (''created_at'', 1)] (tasks s) = (r, ts)"
            by (cases "find_one_and_update (fetch_query qid extra_filter)
            (fetch_update now worker_id task_timeout)
            [(''priority'', -1), (''created_at'', 1)] (tasks s)")
          with assms tt queue qid vw have "r = Inr res" and "s' = s\<lparr>tasks := ts\<rparr>"
            by (auto simp add: fetch_task_def subscript_def)
          with fu queue qid vw show ?thesis by auto
        qed
      qed
    qed
  qed
qed

lemma apply_set_fetch_update:
  assumes "apply_set (fetch_update now worker_id task_timeout) d = Some t"
  shows "map_of t ''status'' = Some (VTaskState RUNNING)
     \<and> map_of t ''worker_id'' = Some (case worker_id of None \<Rightarrow> VNone | Some w \<Rightarrow> VStr w)
     \<and> map_of t ''start_time'' = Some (VTime now)
     \<and> map_of t ''last_heartbeat'' = Some (VTime now)
     \<and> map_of t ''last_modified'' = Some (VTime now)"
  using assms
  by (cases task_timeout)
     (auto simp add: fetch_update_def set_field_plain update_conv' split: if_splits)

text \<open>
  Claim C2: whenever \<^verbatim>\<open>fetch_task\<close> returns a task, the status of that task is
  \<^verbatim>\<open>RUNNING\<close>, its \<^verbatim>\<open>worker_id\<close> is the argument (null if none was given),
  and its \<^verbatim>\<open>start_time\<close> and \<^verbatim>\<open>last_heartbeat\<close> are the time of the
  claim; the task returned is the one now in the store.
\<close>

theorem fetch_task_returns_claimed:
  assumes "fetch_task parse_timeout now s queue_name worker_id eta_max extra_filter = (Inr (Some t), s')"
  shows "map_of t ''status'' = Some (VTaskState RUNNING)
     \<and> map_of t ''worker_id'' = Some (case worker_id of None \<Rightarrow> VNone | Some w \<Rightarrow> VStr w)
     \<and> map_of t ''start_time'' = Some (VTime now)
     \<and> map_of t ''last_heartbeat'' = Some (VTime now)
     \<and> t \<in> set (tasks s')"
proof -
  from fetch_task_cases[OF assms] obtain qid task_timeout where
    fu: "find_one_and_update (fetch_query qid extra_filter)
            (fetch_update now worker_id task_timeout)
            [(''priority'', -1), (''created_at'', 1)] (tasks s) = (Inr (Some t), tasks s')"
    by auto
  from find_one_and_update_cases[OF fu] obtain d ds where
    hd: "sort_key (sort_keys [(''priority'', -1), (''created_at'', 1)])
           (filter (matches (fetch_query qid extra_filter)) (tasks s)) = d # ds"
    and ap: "apply_set (fetch_update now worker_id task_timeout) d = Some t"
    and c': "tasks s' = replace_first d t (tasks s)"
    by auto
  from sort_key_head[OF hd] have "d \<in> set (tasks s)" by simp
  with c' have "t \<in> set (tasks s')" by (simp add: replace_first_mem)
  with apply_set_fetch_update[OF ap] show ?thesis by simp
qed

lemmas fetch_eval = fetch_task_def verify_worker_def fetch_query_def fetch_update_def
  find_one_and_update_def store_eval

theorem fetch_task_returns_claimed_witness:
  "fetch_task (\<lambda>e. Inr 5) 7 example_store ''exp1'' (Some ''w1'') None None =
     (Inr (Some (example_claimed ''b'' ''q1'' 20 2 7 (VStr ''w1''))),
      example_store\<lparr>tasks :=
        [example_task ''a'' ''q1'' PENDING 10 1 VNone,
         example_claimed ''b'' ''q1'' 20 2 7 (VStr ''w1''),
         example_task ''c'' ''q1'' RUNNING 30 3 (VStr ''w1''),
         example_task ''d'' ''q2'' PENDING 40 4 VNone]\<rparr>)
   \<and> map_of (example_claimed ''b'' ''q1'' 20 2 7 (VStr ''w1'')) ''status'' = Some (VTaskState RUNNING)
   \<and> map_of (example_claimed ''b'' ''q1'' 20 2 7 (VStr ''w1'')) ''worker_id'' = Some (VStr ''w1'')
   \<and> map_of (example_claimed ''b'' ''q1'' 20 2 7 (VStr ''w1'')) ''start_time'' = Some (VTime 7)
   \<and> map_of (example_claimed ''b'' ''q1'' 20 2 7 (VStr ''w1'')) ''last_heartbeat'' = Some (VTime 7)"
proof -
  have h: "fetch_task (\<lambda>e. Inr 5) 7 example_store ''exp1'' (Some ''w1'') None None =
     (Inr (Some (example_claimed ''b'' ''q1'' 20 2 7 (VStr ''w1''))),
      example_store\<lparr>tasks :=
        [example_task ''a'' ''q1'' PENDING 10 1 VNone,
         example_claimed ''b'' ''q1'' 20 2 7 (VStr ''w1''),
         example_task ''c'' ''q1'' RUNNING 30 3 (VStr ''w1''),
         example_task ''d'' ''q2'' PENDING 40 4 VNone]\<rparr>)"
    by (simp add: fetch_eval example_claimed_def)
  from fetch_task_returns_claimed[OF h] h show ?thesis by simp
qed

section \<open>The time stamp written by the general update\<close>

text \<open>Every task that \<^verbatim>\<open>update\<close> writes gets \<^verbatim>\<open>last_modified = now\<close>,
  whatever the caller's \<^verbatim>\<open>$set\<close> holds: a later entry of the update cannot write
  below a time stamp, and the keys of a dict are distinct.\<close>

lemma split_path_not_Nil: "split_path k \<noteq> []"
  by (induction k) (auto split: list.splits)

lemma split_path_single: "split_path k = [p] \<Longrightarrow> k = p"
proof (induction k arbitrary: p)
  case Nil
  then show ?case by simp
next
  case (Cons c cs)
  show ?case
  proof (cases "c = CHR ''.''")
    case True
    with Cons.prems split_path_not_Nil[of cs] show ?thesis by simp
  next
    case False
    obtain p' ps' where sp: "split_path cs = p' # ps'"
      using split_path_not_Nil[of cs] by (cases "split_path cs") auto
    with False Cons.prems have "ps' = []" and "p = c # p'" by auto
    with sp Cons.IH[of p'] show ?thesis by simp
  qed
qed

lemma set_path_top:
  assumes "set_path (p # ps) v d = Some d'"
  shows "\<exists>x. d' = AList.update p x d"
proof (cases ps)
  case Nil
  with assms show ?thesis by auto
next
  case (Cons a l)
  show ?thesis
  proof (cases "map_of d p")
    case None
    with Cons assms show ?thesis by auto
  next
    case (Some x)
    show ?thesis
    proof (cases x)
      case (VDict sub)
      with Some Cons assms show ?thesis by auto
    qed (use Some Cons assms in simp_all)
  qed
qed

lemma set_path_other:
  "set_path (p # ps) v d = Some d' \<Longrightarrow> k \<noteq> p \<Longrightarrow> map_of d' k = map_of d k"
  by (auto dest!: set_path_top simp add: update_conv')

lemma set_path_below_time:
  "map_of d p = Some (VTime t) \<Longrightarrow> ps \<noteq> [] \<Longrightarrow> set_path (p # ps) v d = None"
  by (cases ps) auto

lemma set_field_keeps_last_modified:
  assumes "set_field d k v = Some d'" and "k \<noteq> ''last_modified''"
    and "map_of d ''last_modified'' = Some (VTime now)"
  shows "map_of d' ''last_modified'' = Some (VTime now)"
proof -
  obtain p ps where sp: "split_path k = p # ps"
    using split_path_not_Nil[of k] by (cases "split_path k") auto
  from assms(1) sp have s: "set_path (p # ps) v d = Some d'"
    by (simp add: set_field_def split: if_splits)
  show ?thesis
  proof (cases "p = ''last_modified''")
    case False
    with set_path_other[OF s, of "''last_modified''"] assms(3) show ?thesis by simp
  next
    case True
    have "ps \<noteq> []"
    proof
      assume "ps = []"
      with sp True have "k = ''last_modified''" by (simp add: split_path_single)
      with assms(2) show False by simp
    qed
    with set_path_below_time[of d p now ps v] True assms(3) s show ?thesis by simp
  qed
qed

lemma apply_set_keeps_last_modified:
  "apply_set u d = Some d' \<Longrightarrow> ''last_modified'' \<notin> set (map fst u) \<Longrightarrow>
   map_of d ''last_modified'' = Some (VTime now) \<Longrightarrow>
   map_of d' ''last_modified'' = Some (VTime now)"
proof (induction u arbitrary: d)
  case Nil
  then show ?case by simp
next
  case (Cons kv u)
  obtain k v where kv: "kv = (k, v)" by (cases kv)
  with Cons.prems(1) obtain d1 where s: "set_field d k v = Some d1" and a: "apply_set u d1 = Some d'"
    by (auto split: option.splits)
  from Cons.prems(2) kv have "k \<noteq> ''last_modified''" and n: "''last_modified'' \<notin> set (map fst u)"
    by auto
  from set_field_keeps_last_modified[OF s this(1) Cons.prems(3)]
  have "map_of d1 ''last_modified'' = Some (VTime now)" .
  from Cons.IH[OF a n this] show ?case .
qed

lemma apply_set_sets_last_modified:
  "apply_set u d = Some d' \<Longrightarrow> distinct (map fst u) \<Longrightarrow>
   map_of u ''last_modified'' = Some (VTime now) \<Longrightarrow>
   map_of d' ''last_modified'' = Some (VTime now)"
proof (induction u arbitrary: d)
  case Nil
  then show ?case by simp
next
  case (Cons kv u)
  obtain k v where kv: "kv = (k, v)" by (cases kv)
  with Cons.prems(1) obtain d1 where s: "set_field d k v = Some d1" and a: "apply_set u d1 = Some d'"
    by (auto split: option.splits)
  show ?case
  proof (cases "k = ''last_modified''")
    case True
    with Cons.prems(3) kv have v: "v = VTime now" by simp
    from True s v have "map_of d1 ''last_modified'' = Some (VTime now)"
      by (auto simp add: set_field_plain update_conv')
    moreover from Cons.prems(2) kv True have "''last_modified'' \<notin> set (map fst u)" by simp
    ultimately show ?thesis using apply_set_keeps_last_modified[OF a] by simp
  next
    case False
    with Cons.prems(2,3) kv have "distinct (map fst u)"
      and "map_of u ''last_modified'' = Some (VTime now)" by auto
    from Cons.IH[OF a this] show ?thesis .
  qed
qed

lemma update_set_doc_last_modified:
  "map_of (update_set_doc now u) ''last_modified'' = Some (VTime now)"
  by (simp add: update_set_doc_def update_conv' split: option.splits)

lemma update_set_doc_distinct:
  "(case u of None \<Rightarrow> True | Some g \<Rightarrow> distinct (map fst g)) \<Longrightarrow>
   distinct (map fst (update_set_doc now u))"
  by (simp add: update_set_doc_def distinct_update split: option.splits)

lemma update_many_applied:
  "i < length c \<Longrightarrow>
   snd (update_many f u c) ! i = c ! i \<or> apply_set u (c ! i) = Some (snd (update_many f u c) ! i)"
proof (induction c arbitrary: i)
  case Nil
  then show ?case by simp
next
  case (Cons d ds)
  show ?case
  proof (cases i)
    case 0
    then show ?thesis by (auto split: option.splits prod.splits)
  next
    case (Suc j)
    with Cons.prems have "j < length ds" by simp
    from Cons.IH[OF this] Suc show ?thesis
      by (auto split: option.splits prod.splits)
  qed
qed

lemma update_bumps_last_modified:
  assumes "update now s queue_name q u = (r, s')"
    and "case u of None \<Rightarrow> True | Some g \<Rightarrow> distinct (map fst g)"
    and "i < length (tasks s)"
  shows "tasks s' ! i = tasks s ! i \<or> map_of (tasks s' ! i) ''last_modified'' = Some (VTime now)"
proof -
  from update_result[OF assms(1)]
  have "s' = s \<or> s' = s\<lparr>tasks := snd (update_many q (update_set_doc now u) (tasks s))\<rparr>"
    by auto
  then show ?thesis
  proof
    assume "s' = s"
    then show ?thesis by simp
  next
    assume s': "s' = s\<lparr>tasks := snd (update_many q (update_set_doc now u) (tasks s))\<rparr>"
    from update_many_applied[OF assms(3), of q "update_set_doc now u"]
    show ?thesis
    proof
      assume "snd (update_many q (update_set_doc now u) (tasks s)) ! i = tasks s ! i"
      with s' show ?thesis by simp
    next
      assume "apply_set (update_set_doc now u) (tasks s ! i) =
          Some (snd (update_many q (update_set_doc now u) (tasks s)) ! i)"
      from apply_set_sets_last_modified[OF this update_set_doc_distinct[OF assms(2)]
          update_set_doc_last_modified]
      show ?thesis using s' by simp
    qed
  qed
qed

section \<open>Cancelling a task\<close>

lemma cancel_task_tasks:
  "tasks (snd (cancel_task s queue_name task_id)) = tasks s \<or>
   (\<exists>f. tasks (snd (cancel_task s queue_name task_id)) =
      snd (update_one f [(''status'', VTaskState CANCELLED)] (tasks s)))"
proof (cases "get_queue s queue_name")
  case (Inl e)
  then show ?thesis by (simp add: cancel_task_def)
next
  case queue: (Inr queue)
  show ?thesis
  proof (cases "map_of queue ''_id''")
    case None
    with queue show ?thesis by (simp add: cancel_task_def subscript_def)
  next
    case (Some qid)
    obtain r ts where "update_one [(''_id'', Eq (VStr task_id)), (''queue_id'', Eq qid)]
                       [(''status'', VTaskState CANCELLED)] (tasks s) = (r, ts)"
      by (cases "update_one [(''_id'', Eq (VStr task_id)), (''queue_id'', Eq qid)]
                       [(''status'', VTaskState CANCELLED)] (tasks s)")
    with queue Some show ?thesis
      by (cases r) (auto simp add: cancel_task_def subscript_def intro!: exI[of _ "[(''_id'', Eq (VStr task_id)), (''queue_id'', Eq qid)]"])
  qed
qed

lemma cancel_task_last_modified:
  "map (\<lambda>d. map_of d ''last_modified'') (tasks (snd (cancel_task s queue_name task_id))) =
   map (\<lambda>d. map_of d ''last_modified'') (tasks s)"
proof -
  have "map (\<lambda>d. map_of d ''last_modified'') (snd (update_one f [(''status'', VTaskState CANCELLED)] (tasks s))) =
        map (\<lambda>d. map_of d ''last_modified'') (tasks s)" for f
    by (rule update_one_map_of[where g = "AList.update ''status'' (VTaskState CANCELLED)"])
       (simp_all add: set_field_plain update_conv')
  with cancel_task_tasks[of s queue_name task_id] show ?thesis by auto
qed

text \<open>
  Claim C3: \<^verbatim>\<open>last_modified\<close> is bumped by every operation that mutates a task,
  \<^verbatim>\<open>cancel_task\<close> among them. The code does not do so: cancelling the pending task
  \<open>a\<close> of the example changes its status and leaves its \<^verbatim>\<open>last_modified\<close> at
  the instant 1 of its creation (as \<open>cancel_task_last_modified\<close> shows, for every store
  and every task). The general update and the cascade of \<^verbatim>\<open>delete_worker\<close> do
  write it (\<open>update_bumps_last_modified\<close>, \<open>apply_set_cascade\<close>).
\<close>

theorem cancel_task_leaves_last_modified:
  "cancel_task example_store ''exp1'' ''a'' =
     (Inr True,
      example_store\<lparr>tasks :=
        [example_task ''a'' ''q1'' CANCELLED 10 1 VNone,
         example_task ''b'' ''q1'' PENDING 20 2 VNone,
         example_task ''c'' ''q1'' RUNNING 30 3 (VStr ''w1''),
         example_task ''d'' ''q2'' PENDING 40 4 VNone]\<rparr>)
   \<and> map_of (example_task ''a'' ''q1'' CANCELLED 10 1 VNone) ''last_modified'' = Some (VTime 1)"
  by (simp add: cancel_task_def store_eval)

section \<open>Updating a queue\<close>

lemma update_queue_result:
  assumes "update_queue hp now s qn nn np mu = (Inr b, s')"
  shows "\<exists>f n p m r. update_one f
            [(''queue_name'', n), (''password'', p), (''metadata'', m),
             (''last_modified'', VTime now)] (queues s) = (r, queues s')
          \<and> (mu \<noteq> None \<and> mu \<noteq> Some [] \<longrightarrow> m = VNone)"
  using assms unfolding update_queue_def
  apply (auto split: sum.splits prod.splits if_splits val.splits simp del: update_one.simps)
       apply blast+
  done

lemma update_queue_metadata_lost:
  assumes "update_queue hp now s qn nn np (Some mu) = (Inr b, s')" and "mu \<noteq> []"
    and "i < length (queues s)"
  shows "queues s' ! i = queues s ! i \<or> map_of (queues s' ! i) ''metadata'' = Some VNone"
proof -
  from update_queue_result[OF assms(1)] assms(2) obtain f n p r where
    u: "update_one f [(''queue_name'', n), (''password'', p), (''metadata'', VNone),
             (''last_modified'', VTime now)] (queues s) = (r, queues s')"
    by auto
  let ?g = "\<lambda>d. AList.update ''last_modified'' (VTime now) (AList.update ''metadata'' VNone
              (AList.update ''password'' p (AList.update ''queue_name'' n d)))"
  have "apply_set [(''queue_name'', n), (''password'', p), (''metadata'', VNone),
             (''last_modified'', VTime now)] d = Some (?g d)" for d
    by (simp add: set_field_plain)
  from update_one_total[of _ ?g i "queues s" f, OF this assms(3)] u
  show ?thesis by (auto simp add: update_conv')
qed

text \<open>
  Claim C4: for a non-empty \<^verbatim>\<open>metadata_update\<close>, \<^verbatim>\<open>update_queue\<close> persists
  the shallow merge of the old metadata with the update. The code does not do so: the
  value it stores is the result of the in-place \<^verbatim>\<open>dict.update\<close>, which is
  \<^verbatim>\<open>None\<close>. On the example, the metadata \<^verbatim>\<open>{owner: "ann"}\<close> updated with
  \<^verbatim>\<open>{team: "ml"}\<close> becomes null, not \<^verbatim>\<open>{owner: "ann", team: "ml"}\<close>
  (\<open>update_queue_metadata_lost\<close> shows it for every store and update).
\<close>

theorem update_queue_stores_null_metadata:
  "update_queue (\<lambda>p. ''hash'') 9 example_store ''exp1'' None None (Some [(''team'', VStr ''ml'')]) =
     (Inr True,
      example_store\<lparr>queues :=
        [[(''_id'', VStr ''q1''), (''queue_name'', VStr ''exp1''), (''password'', VStr ''h''),
          (''created_at'', VTime 0), (''last_modified'', VTime 9), (''metadata'', VNone)]]\<rparr>)
   \<and> dict_update [(''owner'', VStr ''ann'')] [(''team'', VStr ''ml'')] =
       [(''owner'', VStr ''ann''), (''team'', VStr ''ml'')]"
  by (simp add: update_queue_def store_eval)

section \<open>The timeout sweeper\<close>

lemma timed_out_null:
  "field_eq (map_of d timeout_key) VNone \<Longrightarrow> CHR ''.'' \<notin> set timeout_key \<Longrightarrow>
   timed_out now d time_key timeout_key = Inr False"
  by (simp add: timed_out_def field_plain)

lemma timeout_query_null:
  assumes "field_eq (map_of d ''heartbeat_timeout'') VNone"
    and "field_eq (map_of d ''task_timeout'') VNone"
  shows "timeout_query now d = Inr False"
  using assms by (simp add: timeout_query_def timed_out_null)

lemma find_timeouts_found:
  "find_timeouts now c = Inr found \<Longrightarrow> d \<in> set found \<Longrightarrow>
     d \<in> set c \<and> timeout_query now d = Inr True"
proof (induction c arbitrary: found)
  case Nil
  then show ?case by simp
next
  case (Cons x xs)
  from Cons.prems(1) obtain hit rest where
    q: "timeout_query now x = Inr hit" and r: "find_timeouts now xs = Inr rest"
    and f: "found = (if hit then x # rest else rest)"
    by (auto split: sum.splits)
  show ?case
  proof (cases "hit \<and> d = x")
    case True
    with q show ?thesis by simp
  next
    case False
    with f Cons.prems(2) have "d \<in> set rest" by (auto split: if_splits)
    from Cons.IH[OF r this] show ?thesis by simp
  qed
qed

lemma fail_task_result:
  assumes "fail_task now task c = Inr (task_id, n, c')"
  shows "map_of task ''_id'' = Some task_id
       \<and> (\<exists>u r. update_one [(''_id'', Eq task_id)] u c = (r, c'))"
  using assms unfolding fail_task_def subscript_def
  by (fastforce split: sum.splits option.splits prod.splits simp del: update_one.simps)

lemma sweep_frame:
  assumes "i < length c"
    and "\<forall>task \<in> set found. \<forall>tid. map_of task ''_id'' = Some tid \<longrightarrow> \<not> field_eq (map_of (c ! i) ''_id'') tid"
    and "sweep now found c acc = (r, c')"
  shows "length c' = length c \<and> c' ! i = c ! i
       \<and> (\<forall>ids. r = Inr ids \<longrightarrow> set ids \<subseteq> set acc \<union> {tid. \<exists>task \<in> set found. map_of task ''_id'' = Some tid})"
  using assms
proof (induction found arbitrary: c acc)
  case Nil
  then show ?case by auto
next
  case (Cons task rest)
  show ?case
  proof (cases "fail_task now task c")
    case (Inl e)
    show ?thesis
    proof (cases "map_of task ''_id''")
      case None
      with Inl Cons.prems(3) show ?thesis by (auto simp add: subscript_def)
    next
      case (Some tid)
      with Inl Cons.prems(3) have sw: "sweep now rest c acc = (r, c')"
        by (simp add: subscript_def)
      from Cons.prems(2) have
        "\<forall>task \<in> set rest. \<forall>tid. map_of task ''_id'' = Some tid \<longrightarrow> \<not> field_eq (map_of (c ! i) ''_id'') tid"
        by simp
      from Cons.IH[OF Cons.prems(1) this sw] show ?thesis by auto
    qed
  next
    case (Inr res)
    then obtain tid n c1 where res: "fail_task now task c = Inr (tid, n, c1)"
      by (cases res) auto
    from fail_task_result[OF res] obtain u r1 where
      tid: "map_of task ''_id'' = Some tid" and "update_one [(''_id'', Eq tid)] u c = (r1, c1)"
      by auto
    then have c1: "c1 = snd (update_one [(''_id'', Eq tid)] u c)"
      by simp
    from Cons.prems(2) tid have "\<not> field_eq (map_of (c ! i) ''_id'') tid" by simp
    then have nm: "\<not> matches [(''_id'', Eq tid)] (c ! i)"
      by (simp add: matches_def field_plain)
    have len: "length c1 = length c" and same: "c1 ! i = c ! i"
      using c1 update_one_length update_one_frame[OF Cons.prems(1) nm] by auto
    from res Cons.prems(3) have
      sw: "sweep now rest c1 (if n > 0 then acc @ [tid] else acc) = (r, c')"
      by simp
    from Cons.prems(1) len have i1: "i < length c1" by simp
    from Cons.prems(2) same have
      "\<forall>task \<in> set rest. \<forall>tid. map_of task ''_id'' = Some tid \<longrightarrow> \<not> field_eq (map_of (c1 ! i) ''_id'') tid"
      by simp
    from Cons.IH[OF i1 this sw] len same tid show ?thesis
      by (auto split: if_splits)
  qed
qed

text \<open>
  Claim C8: a \<^verbatim>\<open>RUNNING\<close> task whose \<^verbatim>\<open>heartbeat_timeout\<close> and
  \<^verbatim>\<open>task_timeout\<close> are both null is never selected, transitioned or modified by a
  run of \<^verbatim>\<open>handle_timeouts\<close>, whatever its \<^verbatim>\<open>start_time\<close> and
  \<^verbatim>\<open>last_heartbeat\<close> are: the query does not match it, its document is the same
  after the run, and its id is not among the ids returned. (In the store, no two tasks
  share an \<^verbatim>\<open>_id\<close>.)
\<close>

theorem handle_timeouts_skips_null_timeouts:
  assumes "i < length (tasks s)" and "tasks s ! i = t"
    and "map_of t ''status'' = Some (VTaskState RUNNING)"
    and "field_eq (map_of t ''heartbeat_timeout'') VNone"
    and "field_eq (map_of t ''task_timeout'') VNone"
    and "distinct (map (\<lambda>d. map_of d ''_id'') (tasks s))"
    and "map_of t ''_id'' = Some task_id"
    and "handle_timeouts now s = (r, s')"
  shows "timeout_query now t = Inr False
       \<and> length (tasks s') = length (tasks s) \<and> tasks s' ! i = t
       \<and> queues s' = queues s \<and> workers s' = workers s
       \<and> (\<forall>ids. r = Inr ids \<longrightarrow> task_id \<notin> set ids)"
proof -
  have q: "timeout_query now t = Inr False"
    using assms(4,5) by (rule timeout_query_null)
  show ?thesis
  proof (cases "find_timeouts now (tasks s)")
    case (Inl e)
    with assms(8) have "s' = s" and "r = Inl e" by (auto simp add: handle_timeouts_def)
    with q assms(2) show ?thesis by simp
  next
    case (Inr found)
    obtain r1 ts where sw: "sweep now found (tasks s) [] = (r1, ts)"
      by (cases "sweep now found (tasks s) []")
    with Inr assms(8) have r: "r = r1" and s': "s' = s\<lparr>tasks := ts\<rparr>"
      by (auto simp add: handle_timeouts_def)
    have t_in: "t \<in> set (tasks s)" using assms(1,2) by auto
    have other: "map_of task ''_id'' \<noteq> Some task_id" if "task \<in> set found" for task
    proof
      assume eq: "map_of task ''_id'' = Some task_id"
      from find_timeouts_found[OF Inr that] have "task \<in> set (tasks s)"
        and "timeout_query now task = Inr True" by auto
      with q have ne: "task \<noteq> t" by auto
      from assms(6) have inj: "inj_on (\<lambda>d. map_of d ''_id'') (set (tasks s))"
        by (simp add: distinct_map)
      from eq assms(7) have "map_of task ''_id'' = map_of t ''_id''" by simp
      from inj_onD[OF inj this \<open>task \<in> set (tasks s)\<close> t_in] ne show False by simp
    qed
    then have "\<forall>task \<in> set found. \<forall>tid. map_of task ''_id'' = Some tid \<longrightarrow>
         \<not> field_eq (map_of (tasks s ! i) ''_id'') tid"
      using assms(2,7) by (auto simp add: field_eq_def)
    from sweep_frame[OF assms(1) this sw] other assms(2) r s' q show ?thesis
      by auto
  qed
qed

lemmas sweep_eval = handle_timeouts_def timeout_query_def timed_out_def elapsed_gt_def
  fail_task_def TaskFSM_fail_def sweep_store_def example_running_def example_queue_def
  matches_def field_def field_eq_def subscript_def set_field_def

theorem handle_timeouts_skips_null_timeouts_witness:
  "handle_timeouts 100000 sweep_store =
     (Inr [VStr ''x''],
      sweep_store\<lparr>tasks :=
        [[(''_id'', VStr ''x''), (''queue_id'', VStr ''q1''), (''status'', VTaskState PENDING),
          (''task_name'', VNone), (''created_at'', VTime 0), (''start_time'', VTime 0),
          (''last_heartbeat'', VTime 0), (''last_modified'', VTime 100000),
          (''heartbeat_timeout'', VInt 60), (''task_timeout'', VNone),
          (''max_retries'', VInt 3), (''retries'', VInt 1), (''priority'', VInt 10),
          (''metadata'', VDict []), (''args'', VDict []),
          (''summary'', VDict [(''labtasker_error'',
              VStr ''Either heartbeat or task execution timed out'')]),
          (''worker_id'', VNone)],
         example_running ''y'' VNone VNone]\<rparr>)
   \<and> timeout_query 100000 (example_running ''y'' VNone VNone) = Inr False
   \<and> tasks (snd (handle_timeouts 100000 sweep_store)) ! 1 = example_running ''y'' VNone VNone"
proof -
  have h: "handle_timeouts 100000 sweep_store =
     (Inr [VStr ''x''],
      sweep_store\<lparr>tasks :=
        [[(''_id'', VStr ''x''), (''queue_id'', VStr ''q1''), (''status'', VTaskState PENDING),
          (''task_name'', VNone), (''created_at'', VTime 0), (''start_time'', VTime 0),
          (''last_heartbeat'', VTime 0), (''last_modified'', VTime 100000),
          (''heartbeat_timeout'', VInt 60), (''task_timeout'', VNone),
          (''max_retries'', VInt 3), (''retries'', VInt 1), (''priority'', VInt 10),
          (''metadata'', VDict []), (''args'', VDict []),
          (''summary'', VDict [(''labtasker_error'',
              VStr ''Either heartbeat or task execution timed out'')]),
          (''worker_id'', VNone)],
         example_running ''y'' VNone VNone]\<rparr>)"
    by (simp add: sweep_eval)
  have i: "1 < length (tasks sweep_store)"
    and t: "tasks sweep_store ! 1 = example_running ''y'' VNone VNone"
    by (simp_all add: sweep_store_def)
  have st: "map_of (example_running ''y'' VNone VNone) ''status'' = Some (VTaskState RUNNING)"
    and hb: "field_eq (map_of (example_running ''y'' VNone VNone) ''heartbeat_timeout'') VNone"
    and tt: "field_eq (map_of (example_running ''y'' VNone VNone) ''task_timeout'') VNone"
    and id: "map_of (example_running ''y'' VNone VNone) ''_id'' = Some (VStr ''y'')"
    by (simp_all add: example_running_def field_eq_def)
  have d: "distinct (map (\<lambda>d. map_of d ''_id'') (tasks sweep_store))"
    by (simp add: sweep_store_def example_running_def)
  from handle_timeouts_skips_null_timeouts[OF i t st hb tt d id h] h show ?thesis
    by simp
qed

section \<open>Which task a fetch selects\<close>

lemma update_fresh: "k \<notin> set (map fst a) \<Longrightarrow> AList.update k v a = a @ [(k, v)]"
  by (induction a) auto

lemma dict_update_disjoint:
  "distinct (map fst b) \<Longrightarrow> set (map fst a) \<inter> set (map fst b) = {} \<Longrightarrow> dict_update a b = a @ b"
proof (induction b arbitrary: a)
  case Nil
  then show ?case by (simp add: dict_update_def)
next
  case (Cons kv b)
  obtain k v where kv: "kv = (k, v)" by (cases kv)
  from Cons.prems kv have fresh: "k \<notin> set (map fst a)" by auto
  from Cons.prems kv have "distinct (map fst b)"
    and "set (map fst (a @ [(k, v)])) \<inter> set (map fst b) = {}" by auto
  from Cons.IH[OF this] have "dict_update (a @ [(k, v)]) b = (a @ [(k, v)]) @ b" .
  with kv fresh show ?case by (simp add: dict_update_def update_fresh)
qed

lemma matches_append: "matches (f @ g) d = (matches f d \<and> matches g d)"
  by (simp add: matches_def)

lemma matches_fetch_query:
  assumes "distinct (map fst f)" and "''queue_id'' \<notin> set (map fst f)"
    and "''status'' \<notin> set (map fst f)"
  shows "matches (fetch_query qid (Some f)) d = eligible qid f d"
proof -
  from assms have "dict_update [(''queue_id'', Eq qid), (''status'', Eq (VTaskState PENDING))] f =
      [(''queue_id'', Eq qid), (''status'', Eq (VTaskState PENDING))] @ f"
    by (intro dict_update_disjoint) auto
  then show ?thesis
    by (auto simp add: fetch_query_def matches_append matches_def eligible_def field_plain field_eq_def
          split: option.splits)
qed

lemma matches_fetch_query_None:
  "matches (fetch_query qid None) d = eligible qid [] d"
  by (auto simp add: fetch_query_def dict_update_def matches_def eligible_def field_plain field_eq_def
          split: option.splits)

lemma sort_keys_fetch:
  assumes "priority_of d = Some p" and "created_of d = Some c"
  shows "sort_keys [(''priority'', -1), (''created_at'', 1)] d = [(-2, - of_int p), (9, of_int c)]"
  using assms
  by (auto simp add: sort_keys_def field_plain priority_of_def created_of_def
        split: option.splits val.splits)

lemma fetch_order:
  assumes "priority_of d = Some p" and "created_of d = Some c"
    and "priority_of e = Some p'" and "created_of e = Some c'"
  shows "(sort_keys [(''priority'', -1), (''created_at'', 1)] d
           \<le> sort_keys [(''priority'', -1), (''created_at'', 1)] e)
         = (p' < p \<or> (p' = p \<and> c \<le> c'))"
  by (auto simp add: sort_keys_fetch[OF assms(1,2)] sort_keys_fetch[OF assms(3,4)])

lemma get_queue_tasks: "get_queue (s\<lparr>tasks := ts\<rparr>) queue_name = get_queue s queue_name"
  by (simp add: get_queue_def)

lemma fetch_task_plain:
  assumes "get_queue s queue_name = Inr queue" and "map_of queue ''_id'' = Some qid"
  shows "fetch_task parse_timeout now s queue_name None None None =
     (case sort_key (sort_keys [(''priority'', -1), (''created_at'', 1)])
             (filter (eligible qid []) (tasks s)) of
        [] \<Rightarrow> (Inr None, s)
      | d # ds \<Rightarrow> (Inr (Some (claim now d)), s\<lparr>tasks := replace_first d (claim now d) (tasks s)\<rparr>))"
proof -
  have m: "matches (fetch_query qid None) = eligible qid []"
    by (rule ext) (rule matches_fetch_query_None)
  have a: "apply_set (fetch_update now None None) d = Some (claim now d)" for d
    by (simp add: fetch_update_def set_field_plain claim_def)
  show ?thesis
    using assms
    by (simp add: fetch_task_def subscript_def verify_worker_def find_one_and_update_def m a
          split: list.splits)
qed

lemma filter_replace_first:
  "P d \<Longrightarrow> \<not> P t \<Longrightarrow> filter P (replace_first d t c) = remove1 d (filter P c)"
  by (induction c) auto

lemma map_remove1_inj:
  "distinct (map g xs) \<Longrightarrow> d \<in> set xs \<Longrightarrow> map g (remove1 d xs) = remove1 (g d) (map g xs)"
proof (induction xs)
  case Nil
  then show ?case by simp
next
  case (Cons a xs)
  show ?case
  proof (cases "d = a")
    case True
    then show ?thesis by simp
  next
    case False
    with Cons.prems have d: "d \<in> set xs" and "g a \<notin> g ` set xs" by auto
    then have "g d \<noteq> g a" by (metis imageI)
    with False Cons.IH d Cons.prems(1) show ?thesis by simp
  qed
qed

lemma claim_not_eligible: "\<not> eligible qid f (claim now d)"
  by (simp add: eligible_def claim_def update_conv')

lemma priority_of_claim: "priority_of (claim now d) = priority_of d"
  by (simp add: priority_of_def claim_def update_conv')

lemma sort_keys_priority:
  assumes "priority_of d = Some p" and "priority_of e = Some p'"
    and "sort_keys [(''priority'', -1), (''created_at'', 1)] d
           \<le> sort_keys [(''priority'', -1), (''created_at'', 1)] e"
  shows "p' \<le> p"
  using assms
  by (auto simp add: sort_keys_def field_plain priority_of_def
        split: option.splits val.splits prod.splits if_splits)

text \<open>
  With an extra filter that is a dict and names neither \<^verbatim>\<open>queue_id\<close> nor
  \<^verbatim>\<open>status\<close>, a fetch that returns null found no eligible task and left the store
  as it was; a fetch that returns a task has selected one eligible task, first in the sort
  order among the eligible ones, and has written the claim into that task only.
\<close>

lemma fetch_task_selects:
  assumes "fetch_task parse_timeout now s queue_name worker_id eta_max extra_filter = (Inr result, s')"
    and "f = (case extra_filter of None \<Rightarrow> [] | Some g \<Rightarrow> g)"
    and "distinct (map fst f)" and "''queue_id'' \<notin> set (map fst f)"
    and "''status'' \<notin> set (map fst f)"
  shows "\<exists>queue qid. get_queue s queue_name = Inr queue \<and> map_of queue ''_id'' = Some qid \<and>
       (case result of
          None \<Rightarrow> (\<forall>d \<in> set (tasks s). \<not> eligible qid f d) \<and> s' = s
        | Some t \<Rightarrow>
            (\<exists>d task_timeout. d \<in> set (tasks s) \<and> eligible qid f d
               \<and> (\<forall>e \<in> set (tasks s). eligible qid f e \<longrightarrow>
                     sort_keys [(''priority'', -1), (''created_at'', 1)] d
                       \<le> sort_keys [(''priority'', -1), (''created_at'', 1)] e)
               \<and> apply_set (fetch_update now worker_id task_timeout) d = Some t
               \<and> s' = s\<lparr>tasks := replace_first d t (tasks s)\<rparr>))"
proof -
  let ?K = "sort_keys [(''priority'', -1), (''created_at'', 1)]"
  from fetch_task_cases[OF assms(1)] obtain queue qid task_timeout where
    q: "get_queue s queue_name = Inr queue" "map_of queue ''_id'' = Some qid"
    and fu: "find_one_and_update (fetch_query qid extra_filter)
            (fetch_update now worker_id task_timeout)
            [(''priority'', -1), (''created_at'', 1)] (tasks s) = (Inr result, tasks s')"
    and s': "s' = s\<lparr>tasks := tasks s'\<rparr>"
    by blast
  have m: "matches (fetch_query qid extra_filter) = eligible qid f"
  proof (rule ext, cases extra_filter)
    fix d
    case None
    with assms(2) show "matches (fetch_query qid extra_filter) d = eligible qid f d"
      by (simp add: matches_fetch_query_None)
  next
    fix d
    case (Some g)
    with assms(2-5) show "matches (fetch_query qid extra_filter) d = eligible qid f d"
      by (simp add: matches_fetch_query)
  qed
  show ?thesis
  proof (cases result)
    case None
    with find_one_and_update_cases[OF fu]
    have e: "sort_key ?K (filter (eligible qid f) (tasks s)) = []" and c: "tasks s' = tasks s"
      by (auto simp add: m)
    from e have "filter (eligible qid f) (tasks s) = []"
      by (metis length_0_conv length_sort)
    then have "\<forall>d \<in> set (tasks s). \<not> eligible qid f d"
      by (simp add: filter_empty_conv)
    moreover from s' c have "s' = s" by simp
    ultimately show ?thesis using q None by simp
  next
    case (Some t)
    with find_one_and_update_cases[OF fu] obtain d ds where
      hd: "sort_key ?K (filter (eligible qid f) (tasks s)) = d # ds"
      and ap: "apply_set (fetch_update now worker_id task_timeout) d = Some t"
      and c: "tasks s' = replace_first d t (tasks s)"
      by (auto simp add: m)
    from sort_key_head[OF hd] have "d \<in> set (tasks s)" and "eligible qid f d"
      and "\<forall>e \<in> set (tasks s). eligible qid f e \<longrightarrow> ?K d \<le> ?K e"
      by auto
    moreover from s' c have "s' = s\<lparr>tasks := replace_first d t (tasks s)\<rparr>" by simp
    ultimately show ?thesis using q Some ap by auto
  qed
qed

text \<open>The sort order of the fetch on tasks with an integer priority and a time stamp
  \<^verbatim>\<open>created_at\<close> is \<open>fetch_order\<close>: higher priority first, then older first.
  Fetching once per pending task of a queue whose pending tasks have distinct integer
  priorities returns all of them, in strictly decreasing priority, and leaves no pending
  task in the queue.\<close>

lemma fetch_times_decreasing:
  assumes "get_queue s queue_name = Inr queue" and "map_of queue ''_id'' = Some qid"
    and "map priority_of (filter (eligible qid []) (tasks s)) = map Some ps"
    and "distinct ps" and "length nows = length ps"
  shows "\<exists>ts qs s'. fetch_times parse_timeout nows s queue_name = (map Some ts, s')
         \<and> map priority_of ts = map Some qs \<and> sorted_wrt (\<lambda>a b. a > b) qs
         \<and> set qs = set ps \<and> length qs = length ps
         \<and> filter (eligible qid []) (tasks s') = [] \<and> queues s' = queues s"
  using assms
proof (induction nows arbitrary: s ps)
  case Nil
  then have "ps = []" by simp
  with Nil.prems(3) have "filter (eligible qid []) (tasks s) = []" by simp
  with \<open>ps = []\<close> show ?case by simp
next
  case (Cons now nows)
  let ?K = "sort_keys [(''priority'', -1), (''created_at'', 1)]"
  let ?E = "filter (eligible qid []) (tasks s)"
  have "length (map priority_of ?E) = length (map Some ps)"
    using Cons.prems(3) by (rule arg_cong)
  then have len: "length ?E = length ps"
    by (simp only: length_map)
  have "length (sort_key ?K ?E) = length ?E"
    by (rule length_sort)
  with len Cons.prems(5) have "length (sort_key ?K ?E) = Suc (length nows)"
    by (simp only: length_Cons)
  then obtain d ds where sk: "sort_key ?K ?E = d # ds"
    by (cases "sort_key ?K ?E") simp_all
  from sort_key_head[OF sk] have dE: "d \<in> set ?E" and least: "\<forall>e \<in> set ?E. ?K d \<le> ?K e"
    by auto
  have prio: "\<exists>p \<in> set ps. priority_of e = Some p" if "e \<in> set ?E" for e
  proof -
    from that have "priority_of e \<in> set (map priority_of ?E)" by simp
    with Cons.prems(3) show ?thesis by auto
  qed
  from prio[OF dE] obtain p where p: "p \<in> set ps" and pd: "priority_of d = Some p" by auto
  have max: "x \<le> p" if "x \<in> set ps" for x
  proof -
    from that have "Some x \<in> set (map priority_of ?E)" using Cons.prems(3) by simp
    then obtain e where e: "e \<in> set ?E" and pe: "priority_of e = Some x" by auto
    from least e have "?K d \<le> ?K e" by simp
    from sort_keys_priority[OF pd pe this] show ?thesis .
  qed
  let ?s1 = "s\<lparr>tasks := replace_first d (claim now d) (tasks s)\<rparr>"
  from fetch_task_plain[OF Cons.prems(1,2), of parse_timeout now] sk
  have ft: "fetch_task parse_timeout now s queue_name None None None = (Inr (Some (claim now d)), ?s1)"
    by simp
  from dE have eld: "eligible qid [] d" by simp
  have E1: "filter (eligible qid []) (tasks ?s1) = remove1 d ?E"
    using filter_replace_first[of "eligible qid []" d "claim now d" "tasks s"] eld claim_not_eligible
    by simp
  from Cons.prems(3,4) have dm: "distinct (map priority_of ?E)"
    by (simp add: distinct_map)
  have "map priority_of (remove1 d ?E) = remove1 (Some p) (map Some ps)"
    using map_remove1_inj[OF dm dE] pd Cons.prems(3) by simp
  also have "\<dots> = map Some (remove1 p ps)"
    using map_remove1_inj[of Some ps p] Cons.prems(4) p by (simp add: distinct_map)
  finally have ps1: "map priority_of (filter (eligible qid []) (tasks ?s1)) = map Some (remove1 p ps)"
    using E1 by simp
  have q1: "get_queue ?s1 queue_name = Inr queue"
    using Cons.prems(1) by (simp add: get_queue_tasks)
  have d1: "distinct (remove1 p ps)" using Cons.prems(4) by simp
  have l1: "length nows = length (remove1 p ps)"
    using Cons.prems(5) p by (simp add: length_remove1)
  from Cons.IH[OF q1 Cons.prems(2) ps1 d1 l1] obtain ts qs s' where
    ih: "fetch_times parse_timeout nows ?s1 queue_name = (map Some ts, s')"
      "map priority_of ts = map Some qs" "sorted_wrt (\<lambda>a b. a > b) qs"
      "set qs = set (remove1 p ps)" "length qs = length (remove1 p ps)"
      "filter (eligible qid []) (tasks s') = []" "queues s' = queues ?s1"
    by blast
  have r: "fetch_times parse_timeout (now # nows) s queue_name = (map Some (claim now d # ts), s')"
    using ft ih(1) by simp
  have below: "\<forall>x \<in> set qs. x < p"
  proof
    fix x assume "x \<in> set qs"
    with ih(4) Cons.prems(4) have "x \<in> set ps" and "x \<noteq> p" by auto
    with max[of x] show "x < p" by simp
  qed
  have "map priority_of (claim now d # ts) = map Some (p # qs)"
    using ih(2) pd by (simp add: priority_of_claim)
  moreover have "sorted_wrt (\<lambda>a b. a > b) (p # qs)"
    using ih(3) below by simp
  moreover have "set (p # qs) = set ps"
    using ih(4) p Cons.prems(4) by auto
  moreover have "length (p # qs) = length ps"
    using ih(5) l1 Cons.prems(5) by simp
  moreover have "queues s' = queues s" using ih(7) by simp
  ultimately show ?case using r ih(6) by blast
qed

lemma fetch_times_example:
  "fetch_times parse_timeout [7, 8, 9] example_store ''exp1'' =
     ([Some (example_claimed ''b'' ''q1'' 20 2 7 VNone),
       Some (example_claimed ''a'' ''q1'' 10 1 8 VNone),
       None],
      example_store\<lparr>tasks :=
        [example_claimed ''a'' ''q1'' 10 1 8 VNone,
         example_claimed ''b'' ''q1'' 20 2 7 VNone,
         example_task ''c'' ''q1'' RUNNING 30 3 (VStr ''w1''),
         example_task ''d'' ''q2'' PENDING 40 4 VNone]\<rparr>)"
  by (simp add: fetch_eval example_claimed_def)

text \<open>
  Claim C1: \<^verbatim>\<open>fetch_task\<close> selects at most one task that matches the resolved
  \<^verbatim>\<open>queue_id\<close>, the status \<^verbatim>\<open>PENDING\<close> and any extra filter, the one of
  highest priority and among those the oldest, and moves it to \<^verbatim>\<open>RUNNING\<close>; it
  returns null when no task matches. The code keeps this for an extra filter that names
  neither \<^verbatim>\<open>queue_id\<close> nor \<^verbatim>\<open>status\<close> (\<open>fetch_task_selects\<close>,
  \<open>fetch_order\<close>, \<open>fetch_times_decreasing\<close>). It breaks it for one that does: the
  key of the extra filter replaces the entry of the query, so a fetch on queue
  \<^verbatim>\<open>exp1\<close> with \<^verbatim>\<open>{status: RUNNING}\<close> claims the running task \<open>c\<close> again,
  and with \<^verbatim>\<open>{queue_id: "q2"}\<close> it claims the task \<open>d\<close> of another queue.
\<close>

theorem fetch_task_extra_filter_overrides:
  "fetch_task (\<lambda>e. Inr 5) 7 example_store ''exp1'' None None
       (Some [(''status'', Eq (VTaskState RUNNING))]) =
     (Inr (Some (example_claimed ''c'' ''q1'' 30 3 7 VNone)),
      example_store\<lparr>tasks :=
        [example_task ''a'' ''q1'' PENDING 10 1 VNone,
         example_task ''b'' ''q1'' PENDING 20 2 VNone,
         example_claimed ''c'' ''q1'' 30 3 7 VNone,
         example_task ''d'' ''q2'' PENDING 40 4 VNone]\<rparr>)
   \<and> fetch_task (\<lambda>e. Inr 5) 7 example_store ''exp1'' None None
       (Some [(''queue_id'', Eq (VStr ''q2''))]) =
     (Inr (Some (example_claimed ''d'' ''q2'' 40 4 7 VNone)),
      example_store\<lparr>tasks :=
        [example_task ''a'' ''q1'' PENDING 10 1 VNone,
         example_task ''b'' ''q1'' PENDING 20 2 VNone,
         example_task ''c'' ''q1'' RUNNING 30 3 (VStr ''w1''),
         example_claimed ''d'' ''q2'' 40 4 7 VNone]\<rparr>)"
  by (simp add: fetch_eval example_claimed_def)

section \<open>The update guard and the reset to pending\<close>

lemma recr_sanitize_mentions:
  "recr_sanitize banned d = (if mentions banned d then Inl (HTTPException 400) else Inr d)"
  by (induction banned d rule: recr_sanitize.induct) auto

lemmas reset_eval = update_task_and_reset_pending_def store_eval

text \<open>
  Claim C5, as stated: every \<^verbatim>\<open>task_setting_update\<close> given to
  \<^verbatim>\<open>update_task_and_reset_pending\<close> is checked by the update sanitizer, so that an
  update that mentions a reserved field fails with 400 and leaves the task unchanged. The
  method does not call the sanitizer: the update \<^verbatim>\<open>{queue_id: "q2"}\<close> mentions a
  reserved field, the call succeeds, and the task \<open>c\<close> is now in the queue \<open>q2\<close>.
\<close>

theorem reset_pending_unsanitized_counterexample:
  "mentions reserved_fields [(''queue_id'', VStr ''q2'')]
   \<and> update_task_and_reset_pending 9 example_store ''exp1'' ''c'' (Some [(''queue_id'', VStr ''q2'')]) =
       (Inr True,
        example_store\<lparr>tasks :=
          [example_task ''a'' ''q1'' PENDING 10 1 VNone,
           example_task ''b'' ''q1'' PENDING 20 2 VNone,
           AList.update ''last_modified'' (VTime 9) (example_task ''c'' ''q2'' PENDING 30 3 (VStr ''w1'')),
           example_task ''d'' ''q2'' PENDING 40 4 VNone]\<rparr>)"
  by (simp add: reset_eval reserved_fields_def)

text \<open>
  Claim C5, amended: the update sanitizer \<^verbatim>\<open>sanitize_update\<close> fails with 400 on
  every update that mentions a reserved field (\<^verbatim>\<open>_id\<close>, \<^verbatim>\<open>queue_id\<close>,
  \<^verbatim>\<open>created_at\<close>, \<^verbatim>\<open>last_modified\<close>, or the banned fields it is given) at any
  nesting level, and returns every other update as it is; it is the caller's to apply,
  for \<^verbatim>\<open>update_task_and_reset_pending\<close> does not call it and accepts an update that
  the sanitizer refuses.
\<close>

theorem sanitize_update_guard:
  "sanitize_update u None =
     (if mentions reserved_fields u then Inl (HTTPException 400) else Inr u)
   \<and> sanitize_update u (Some banned) =
     (if mentions banned u then Inl (HTTPException 400) else Inr u)
   \<and> sanitize_update [(''args'', VDict [(''queue_id'', VStr ''q2'')])] None = Inl (HTTPException 400)
   \<and> fst (update_task_and_reset_pending 9 example_store ''exp1'' ''c''
            (Some [(''args'', VDict [(''queue_id'', VStr ''q2'')])])) = Inr True"
  by (simp add: sanitize_update_def recr_sanitize_mentions reserved_fields_def reset_eval)

end
